theory Spec2Isabelle
  imports Complex_Main
begin

section \<open>JavaScript numbers\<close>

text \<open>
  The year mapping of \<^verbatim>\<open>data-loader.js\<close> computes with JavaScript numbers. They are
  modelled as exact reals extended with the three non-finite values that the arithmetic of
  the source can produce: a division by zero gives an infinity or, for \<open>0 / 0\<close>,
  \<open>NaN\<close>. Rounding error of the double format and the sign of zero are not modelled:
  finite arithmetic is exact.
\<close>

datatype jsnum = Num real | PosInf | NegInf | NaN

text \<open>The sign of a number that is not \<open>NaN\<close>, and the infinity of a given sign
  (\<open>NaN\<close> for sign zero, as in \<open>Infinity * 0\<close> and \<open>0 / 0\<close>).\<close>

fun js_sign :: "jsnum \<Rightarrow> real" where
  "js_sign (Num a) = sgn a"
| "js_sign PosInf = 1"
| "js_sign NegInf = - 1"
| "js_sign NaN = 0"

definition inf_of_sign :: "real \<Rightarrow> jsnum" where
  "inf_of_sign s = (if 0 < s then PosInf else if s < 0 then NegInf else NaN)"

fun js_neg :: "jsnum \<Rightarrow> jsnum" where
  "js_neg (Num a) = Num (- a)"
| "js_neg PosInf = NegInf"
| "js_neg NegInf = PosInf"
| "js_neg NaN = NaN"

fun js_add :: "jsnum \<Rightarrow> jsnum \<Rightarrow> jsnum" where
  "js_add (Num a) (Num b) = Num (a + b)"
| "js_add NaN _ = NaN"
| "js_add _ NaN = NaN"
| "js_add PosInf NegInf = NaN"
| "js_add NegInf PosInf = NaN"
| "js_add PosInf _ = PosInf"
| "js_add _ PosInf = PosInf"
| "js_add NegInf _ = NegInf"
| "js_add _ NegInf = NegInf"

definition js_sub :: "jsnum \<Rightarrow> jsnum \<Rightarrow> jsnum" where
  "js_sub a b = js_add a (js_neg b)"

fun js_mul :: "jsnum \<Rightarrow> jsnum \<Rightarrow> jsnum" where
  "js_mul (Num a) (Num b) = Num (a * b)"
| "js_mul NaN _ = NaN"
| "js_mul _ NaN = NaN"
| "js_mul a b = inf_of_sign (js_sign a * js_sign b)"

fun js_div :: "jsnum \<Rightarrow> jsnum \<Rightarrow> jsnum" where
  "js_div (Num a) (Num b) = (if b = 0 then inf_of_sign (sgn a) else Num (a / b))"
| "js_div NaN _ = NaN"
| "js_div _ NaN = NaN"
| "js_div (Num a) _ = Num 0"
| "js_div a (Num b) = inf_of_sign (js_sign a * (if b < 0 then - 1 else 1))"
| "js_div _ _ = NaN"

fun js_le :: "jsnum \<Rightarrow> jsnum \<Rightarrow> bool" where
  "js_le (Num a) (Num b) = (a \<le> b)"
| "js_le NaN _ = False"
| "js_le _ NaN = False"
| "js_le NegInf _ = True"
| "js_le _ PosInf = True"
| "js_le _ _ = False"

fun js_lt :: "jsnum \<Rightarrow> jsnum \<Rightarrow> bool" where
  "js_lt (Num a) (Num b) = (a < b)"
| "js_lt NaN _ = False"
| "js_lt _ NaN = False"
| "js_lt PosInf _ = False"
| "js_lt _ NegInf = False"
| "js_lt _ _ = True"

definition js_ge :: "jsnum \<Rightarrow> jsnum \<Rightarrow> bool" where
  "js_ge a b = js_le b a"

definition js_gt :: "jsnum \<Rightarrow> jsnum \<Rightarrow> bool" where
  "js_gt a b = js_lt b a"

text \<open>\<^verbatim>\<open>Math.max\<close> and \<^verbatim>\<open>Math.min\<close> of two arguments: \<open>NaN\<close> when either is.\<close>

fun math_max :: "jsnum \<Rightarrow> jsnum \<Rightarrow> jsnum" where
  "math_max NaN _ = NaN"
| "math_max _ NaN = NaN"
| "math_max a b = (if js_lt a b then b else a)"

fun math_min :: "jsnum \<Rightarrow> jsnum \<Rightarrow> jsnum" where
  "math_min NaN _ = NaN"
| "math_min _ NaN = NaN"
| "math_min a b = (if js_lt b a then b else a)"

text \<open>\<^verbatim>\<open>Math.round\<close> rounds to the nearest integer, a half towards plus infinity.\<close>

definition round_half_up :: "real \<Rightarrow> int" where
  "round_half_up x = \<lfloor>x + 1 / 2\<rfloor>"

fun math_round :: "jsnum \<Rightarrow> jsnum" where
  "math_round (Num a) = Num (of_int (round_half_up a))"
| "math_round x = x"

text \<open>\<^verbatim>\<open>Math.min(...xs)\<close> of a list of finite numbers: \<open>Infinity\<close> for no argument.\<close>

fun math_min_list :: "int list \<Rightarrow> jsnum" where
  "math_min_list [] = PosInf"
| "math_min_list (x # xs) = math_min (Num (of_int x)) (math_min_list xs)"

abbreviation num_of_int :: "int \<Rightarrow> jsnum" where
  "num_of_int i \<equiv> Num (of_int i)"

section \<open>Arrays and maps\<close>

text \<open>
  \<^verbatim>\<open>Array.prototype.sort\<close> with a comparator is stable; an element moves behind another
  only where the comparator is positive (a comparator result \<open>NaN\<close> counts as \<open>0\<close>).
  The parameter \<open>gt a b\<close> says that the comparator is positive at \<open>(a, b)\<close>.
\<close>

fun insert_by :: "('a \<Rightarrow> 'a \<Rightarrow> bool) \<Rightarrow> 'a \<Rightarrow> 'a list \<Rightarrow> 'a list" where
  "insert_by gt x [] = [x]"
| "insert_by gt x (y # ys) = (if gt x y then y # insert_by gt x ys else x # y # ys)"

definition sort_by :: "('a \<Rightarrow> 'a \<Rightarrow> bool) \<Rightarrow> 'a list \<Rightarrow> 'a list" where
  "sort_by gt xs = foldr (insert_by gt) xs []"

text \<open>A \<^verbatim>\<open>Set\<close> built from an array keeps the first occurrence of each element, in order.\<close>

definition set_of_array :: "'a list \<Rightarrow> 'a list" where
  "set_of_array xs = rev (remdups (rev xs))"

text \<open>
  A \<^verbatim>\<open>Map\<close> is an association list in insertion order: \<^verbatim>\<open>set\<close> on a key that is
  present replaces its value in place, on a new key it appends the entry.
\<close>

fun map_set :: "'k \<Rightarrow> 'v \<Rightarrow> ('k \<times> 'v) list \<Rightarrow> ('k \<times> 'v) list" where
  "map_set k v [] = [(k, v)]"
| "map_set k v (p # ps) = (if fst p = k then (k, v) # ps else p # map_set k v ps)"

fun map_get :: "('k \<times> 'v) list \<Rightarrow> 'k \<Rightarrow> 'v option" where
  "map_get [] k = None"
| "map_get (p # ps) k = (if fst p = k then Some (snd p) else map_get ps k)"

section \<open>Books, milestones and events\<close>

text \<open>
  A book of \<^verbatim>\<open>books.json\<close> carries two date ranges, \<^verbatim>\<open>dateEventsStart/End\<close> and
  \<^verbatim>\<open>dateWrittenStart/End\<close>; a range is two whole years or two nulls, so each is an
  optional pair. Years before the common era are negative. The fields of books, milestones
  and events that the year mapping never reads (names, descriptions, the references from an
  event back to its book or milestone) are left out.
\<close>

record book =
  book_id :: string
  dateEvents :: "(int \<times> int) option"
  dateWritten :: "(int \<times> int) option"

record milestone =
  milestone_id :: string
  milestone_year :: int
  displayStart :: int
  displayEnd :: int

record display_date =
  date_range :: "(int \<times> int) option"
  isWritingDate :: bool

definition getDisplayDate :: "book \<Rightarrow> display_date" where
  "getDisplayDate b =
     (case dateEvents b of
        Some r \<Rightarrow> \<lparr>date_range = Some r, isWritingDate = False\<rparr>
      | None \<Rightarrow> \<lparr>date_range = dateWritten b, isWritingDate = True\<rparr>)"

datatype event_type = EvStart | EvEnd | MilestoneStart | MilestoneEnd

record event =
  year :: int
  etype :: event_type
  source_id :: string

record year_range =
  range_start :: int
  range_end :: int

definition book_events :: "book \<Rightarrow> event list" where
  "book_events b =
     (case date_range (getDisplayDate b) of
        None \<Rightarrow> []
      | Some (s, e) \<Rightarrow>
          [\<lparr>year = s, etype = EvStart, source_id = book_id b\<rparr>,
           \<lparr>year = e, etype = EvEnd, source_id = book_id b\<rparr>])"

definition book_range :: "book \<Rightarrow> year_range list" where
  "book_range b =
     (case date_range (getDisplayDate b) of
        None \<Rightarrow> []
      | Some (s, e) \<Rightarrow> [\<lparr>range_start = s, range_end = e\<rparr>])"

definition milestone_events :: "milestone \<Rightarrow> event list" where
  "milestone_events m =
     [\<lparr>year = displayStart m, etype = MilestoneStart, source_id = milestone_id m\<rparr>,
      \<lparr>year = displayEnd m, etype = MilestoneEnd, source_id = milestone_id m\<rparr>]"

definition milestone_range :: "milestone \<Rightarrow> year_range" where
  "milestone_range m = \<lparr>range_start = displayStart m, range_end = displayEnd m\<rparr>"

text \<open>The events in the order of the two \<^verbatim>\<open>forEach\<close> loops, then sorted by year.\<close>

definition collect_events :: "book list \<Rightarrow> milestone list \<Rightarrow> event list" where
  "collect_events books milestones =
     sort_key year (concat (map book_events books) @ concat (map milestone_events milestones))"

definition bookRanges :: "book list \<Rightarrow> year_range list" where
  "bookRanges books = concat (map book_range books)"

definition milestoneRanges :: "milestone list \<Rightarrow> year_range list" where
  "milestoneRanges milestones = map milestone_range milestones"

text \<open>The grid: the distinct event years and the current year, sorted.\<close>

definition uniqueYears :: "int \<Rightarrow> event list \<Rightarrow> int list" where
  "uniqueYears current_year events = sort (set_of_array (map year events) @ [current_year])"

section \<open>Segment weights\<close>

record active_books =
  ab_count :: nat
  ab_books :: "year_range list"
  minDuration :: jsnum

definition getActiveBooksInfo :: "year_range list \<Rightarrow> int \<Rightarrow> active_books" where
  "getActiveBooksInfo ranges y =
     (let active = filter (\<lambda>r. y \<ge> range_start r \<and> y \<le> range_end r) ranges
      in \<lparr>ab_count = length active,
          ab_books = active,
          minDuration = (if length active > 0
                         then math_min_list (map (\<lambda>r. range_end r - range_start r) active)
                         else PosInf)\<rparr>)"

record active_milestones =
  am_count :: nat
  am_milestones :: "year_range list"

definition getActiveMilestonesInfo :: "year_range list \<Rightarrow> int \<Rightarrow> active_milestones" where
  "getActiveMilestonesInfo ranges y =
     (let active = filter (\<lambda>r. y \<ge> range_start r \<and> y \<le> range_end r) ranges
      in \<lparr>am_count = length active, am_milestones = active\<rparr>)"

text \<open>The body of the loop over the grid for \<open>i > 0\<close>: the weight of the segment from
  \<open>prevYear\<close> to \<open>y\<close>.\<close>

definition scrollWeight :: "year_range list \<Rightarrow> year_range list \<Rightarrow> int \<Rightarrow> int \<Rightarrow> jsnum" where
  "scrollWeight branges mranges prevYear y =
     (let gap = y - prevYear;
          w = Num (sqrt (abs (of_int gap)));
          midYear = round_half_up (of_int (prevYear + y) / 2);
          activeInfo = getActiveBooksInfo branges midYear;
          activeMilestones = getActiveMilestonesInfo mranges midYear
      in if ab_count activeInfo > 0 then
           (let densityMultiplier = Num (4 + of_nat (ab_count activeInfo) * 1.5);
                densityMultiplier' =
                  (if js_lt (minDuration activeInfo) (Num 100)
                   then js_mul densityMultiplier
                          (math_max (Num 1)
                             (js_sub (Num 4) (js_div (minDuration activeInfo) (Num 33))))
                   else densityMultiplier)
            in js_mul w densityMultiplier')
         else if am_count activeMilestones > 0 then
           js_mul w (Num (40 + of_nat (am_count activeMilestones) * 20))
         else w)"

text \<open>The loop after its first iteration: \<open>prevYear\<close> is the grid year before, \<open>acc\<close>
  the accumulated position, \<open>tbl\<close> the map \<^verbatim>\<open>yearPositions\<close>. It returns the map and the
  total.\<close>

fun accumulate ::
  "year_range list \<Rightarrow> year_range list \<Rightarrow> int \<Rightarrow> jsnum \<Rightarrow> (int \<times> jsnum) list \<Rightarrow> int list
     \<Rightarrow> (int \<times> jsnum) list \<times> jsnum" where
  "accumulate branges mranges prevYear acc tbl [] = (tbl, acc)"
| "accumulate branges mranges prevYear acc tbl (y # ys) =
     (let acc' = js_add acc (scrollWeight branges mranges prevYear y)
      in accumulate branges mranges y acc' (map_set y acc' tbl) ys)"

definition yearPositions ::
  "year_range list \<Rightarrow> year_range list \<Rightarrow> int list \<Rightarrow> (int \<times> jsnum) list \<times> jsnum" where
  "yearPositions branges mranges years =
     (case years of
        [] \<Rightarrow> ([], Num 0)
      | y0 # ys \<Rightarrow> accumulate branges mranges y0 (Num 0) (map_set y0 (Num 0) []) ys)"

section \<open>Normalisation\<close>

definition marginStart :: real where "marginStart = 0.02"
definition marginEnd :: real where "marginEnd = 0.02"
definition usableRange :: real where "usableRange = 1 - marginStart - marginEnd"

definition normalized :: "jsnum \<Rightarrow> jsnum \<Rightarrow> jsnum" where
  "normalized totalAccumulated pos =
     js_add (Num marginStart) (js_mul (js_div pos totalAccumulated) (Num usableRange))"

definition normalizedPositions :: "(int \<times> jsnum) list \<Rightarrow> jsnum \<Rightarrow> (int \<times> jsnum) list" where
  "normalizedPositions tbl totalAccumulated =
     foldl (\<lambda>m (y, pos). map_set y (normalized totalAccumulated pos) m) [] tbl"

text \<open>The comparator \<^verbatim>\<open>a[1] - b[1]\<close> is positive.\<close>

definition by_position :: "int \<times> jsnum \<Rightarrow> int \<times> jsnum \<Rightarrow> bool" where
  "by_position a b = js_gt (js_sub (snd a) (snd b)) (Num 0)"

definition sortedYears :: "(int \<times> jsnum) list \<Rightarrow> (int \<times> jsnum) list" where
  "sortedYears npos = sort_by by_position npos"

section \<open>The two queries\<close>

text \<open>Reading element \<open>0\<close> of an empty array gives \<^verbatim>\<open>undefined\<close>, and indexing that
  throws.\<close>

datatype js_error = TypeError

text \<open>The \<^verbatim>\<open>for\<close> loop of \<^verbatim>\<open>scrollToYear\<close> over the pairs of neighbours; \<open>None\<close>
  when it ends without returning.\<close>

fun interpolate_year :: "(int \<times> jsnum) list \<Rightarrow> jsnum \<Rightarrow> jsnum option" where
  "interpolate_year ((year1, pos1) # (year2, pos2) # rest) scrollPos =
     (if js_ge scrollPos pos1 \<and> js_le scrollPos pos2 then
        (let t = js_div (js_sub scrollPos pos1) (js_sub pos2 pos1)
         in Some (math_round (js_add (num_of_int year1) (js_mul t (num_of_int (year2 - year1))))))
      else interpolate_year ((year2, pos2) # rest) scrollPos)"
| "interpolate_year _ scrollPos = None"

definition scrollToYear_tbl :: "(int \<times> jsnum) list \<Rightarrow> jsnum \<Rightarrow> js_error + jsnum" where
  "scrollToYear_tbl tbl scrollPos0 =
     (case tbl of
        [] \<Rightarrow> Inl TypeError
      | first # _ \<Rightarrow>
          (let scrollPos = math_max (Num 0) (math_min (Num 1) scrollPos0)
           in if js_le scrollPos (snd first) then Inr (num_of_int (fst first))
              else if js_ge scrollPos (snd (last tbl)) then Inr (num_of_int (fst (last tbl)))
              else (case interpolate_year tbl scrollPos of
                      Some r \<Rightarrow> Inr r
                    | None \<Rightarrow> Inr (num_of_int (fst (last tbl))))))"

text \<open>The \<^verbatim>\<open>for\<close> loop of \<^verbatim>\<open>yearToScroll\<close>.\<close>

fun interpolate_pos :: "(int \<times> jsnum) list \<Rightarrow> int \<Rightarrow> jsnum option" where
  "interpolate_pos ((year1, pos1) # (year2, pos2) # rest) y =
     (if y \<ge> year1 \<and> y \<le> year2 then
        (let t = js_div (num_of_int (y - year1)) (num_of_int (year2 - year1))
         in Some (js_add pos1 (js_mul t (js_sub pos2 pos1))))
      else interpolate_pos ((year2, pos2) # rest) y)"
| "interpolate_pos _ y = None"

text \<open>The comparator \<^verbatim>\<open>a[0] - b[0]\<close> is positive.\<close>

definition by_year :: "int \<times> jsnum \<Rightarrow> int \<times> jsnum \<Rightarrow> bool" where
  "by_year a b = (fst a - fst b > 0)"

definition yearToScroll_tbl :: "(int \<times> jsnum) list \<Rightarrow> int \<Rightarrow> js_error + jsnum" where
  "yearToScroll_tbl npos y =
     (case map_get npos y of
        Some p \<Rightarrow> Inr p
      | None \<Rightarrow>
          (let sortedByYear = sort_by by_year npos
           in case sortedByYear of
                [] \<Rightarrow> Inl TypeError
              | first # _ \<Rightarrow>
                  if y \<le> fst first then Inr (snd first)
                  else if y \<ge> fst (last sortedByYear) then Inr (snd (last sortedByYear))
                  else (case interpolate_pos sortedByYear y of
                          Some r \<Rightarrow> Inr r
                        | None \<Rightarrow> Inr (snd (last sortedByYear)))))"

section \<open>Building the mapping\<close>

record mapping =
  scrollToYear :: "jsnum \<Rightarrow> js_error + jsnum"
  yearToScroll :: "int \<Rightarrow> js_error + jsnum"
  minYear :: int
  maxYear :: int
  events :: "event list"
  dbg_yearPositions :: "(int \<times> jsnum) list"
  dbg_sortedYears :: "(int \<times> jsnum) list"

text \<open>The mapping returned when there is no event. (Its two debugging fields are absent in
  the source; they are empty here.)\<close>

definition identity_mapping :: mapping where
  "identity_mapping =
     \<lparr>scrollToYear = (\<lambda>scroll. Inr (math_round (js_add (Num (- 4000)) (js_mul scroll (Num 4100))))),
      yearToScroll = (\<lambda>y. Inr (js_div (Num (of_int y + 4000)) (Num 4100))),
      minYear = - 4000,
      maxYear = 100,
      events = [],
      dbg_yearPositions = [],
      dbg_sortedYears = []\<rparr>"

text \<open>\<^verbatim>\<open>CURRENT_YEAR\<close> is \<^verbatim>\<open>new Date().getFullYear()\<close> at load time: a parameter here.
  The second argument of the source defaults to the constant \<^verbatim>\<open>MILESTONES\<close>.\<close>

definition buildYearMapping :: "int \<Rightarrow> book list \<Rightarrow> milestone list \<Rightarrow> mapping" where
  "buildYearMapping CURRENT_YEAR books milestones =
     (let evs = collect_events books milestones
      in case evs of
           [] \<Rightarrow> identity_mapping
         | e0 # _ \<Rightarrow>
             (let years = uniqueYears CURRENT_YEAR evs;
                  (tbl, totalAccumulated) =
                     yearPositions (bookRanges books) (milestoneRanges milestones) years;
                  npos = normalizedPositions tbl totalAccumulated;
                  srt = sortedYears npos
              in \<lparr>scrollToYear = scrollToYear_tbl srt,
                  yearToScroll = yearToScroll_tbl npos,
                  minYear = year e0,
                  maxYear = CURRENT_YEAR,
                  events = evs,
                  dbg_yearPositions = npos,
                  dbg_sortedYears = srt\<rparr>))"

definition MILESTONES :: "milestone list" where
  "MILESTONES =
     [\<lparr>milestone_id = ''living-tradition'', milestone_year = 100, displayStart = 96, displayEnd = 382\<rparr>,
      \<lparr>milestone_id = ''rome-382'', milestone_year = 382, displayStart = 370, displayEnd = 393\<rparr>,
      \<lparr>milestone_id = ''hippo-393'', milestone_year = 393, displayStart = 388, displayEnd = 397\<rparr>,
      \<lparr>milestone_id = ''carthage-397'', milestone_year = 397, displayStart = 393, displayEnd = 405\<rparr>,
      \<lparr>milestone_id = ''innocent-405'', milestone_year = 405, displayStart = 400, displayEnd = 500\<rparr>,
      \<lparr>milestone_id = ''trent-1546'', milestone_year = 1546, displayStart = 1500, displayEnd = 1650\<rparr>]"

section \<open>Notions used to state and prove the properties\<close>

text \<open>The weight of a segment as a real number, in the words of the design: the square
  root of the gap, times the book density multiplier and the bonus for a short book where a
  book is active at the midpoint, else times the milestone multiplier where a milestone is.\<close>

definition durationBonus :: "int \<Rightarrow> real" where
  "durationBonus d = (if d < 100 then max 1 (4 - of_int d / 33) else 1)"

definition segment_weight :: "year_range list \<Rightarrow> year_range list \<Rightarrow> int \<Rightarrow> int \<Rightarrow> real" where
  "segment_weight branges mranges prevYear y =
     (let mid = round_half_up (of_int (prevYear + y) / 2);
          books = filter (\<lambda>r. range_start r \<le> mid \<and> mid \<le> range_end r) branges;
          stones = filter (\<lambda>r. range_start r \<le> mid \<and> mid \<le> range_end r) mranges
      in sqrt (abs (of_int (y - prevYear))) *
         (if books \<noteq> [] then
            (4 + 1.5 * of_nat (length books)) *
              durationBonus (Min (set (map (\<lambda>r. range_end r - range_start r) books)))
          else if stones \<noteq> [] then 40 + 20 * of_nat (length stones)
          else 1))"

text \<open>A table of finite positions, as a table of JavaScript numbers.\<close>

abbreviation nums :: "(int \<times> real) list \<Rightarrow> (int \<times> jsnum) list" where
  "nums \<equiv> map (apsnd Num)"

text \<open>Years and positions both increase strictly along the table.\<close>

definition incr :: "(int \<times> real) list \<Rightarrow> bool" where
  "incr = sorted_wrt (\<lambda>a b. fst a < fst b \<and> snd a < snd b)"

text \<open>Neighbours in the table of accumulated positions are one segment apart: the year
  increases and the position grows by the weight of the segment.\<close>

definition chain :: "year_range list \<Rightarrow> year_range list \<Rightarrow> (int \<times> real) list \<Rightarrow> bool" where
  "chain br mr =
     successively (\<lambda>a b. fst a < fst b \<and> snd b - snd a = segment_weight br mr (fst a) (fst b))"

text \<open>The normalised position for a total that is not zero.\<close>

definition norm_pos :: "real \<Rightarrow> real \<Rightarrow> real" where
  "norm_pos tot p = marginStart + p / tot * usableRange"

text \<open>The two shapes of the table of a built mapping: a single year at position \<open>NaN\<close>,
  or finite positions increasing from \<open>0.02\<close> to \<open>0.98\<close>.\<close>

definition nan_table :: "mapping \<Rightarrow> int \<Rightarrow> bool" where
  "nan_table m y0 \<longleftrightarrow> dbg_yearPositions m = [(y0, NaN)] \<and> dbg_sortedYears m = [(y0, NaN)]"

definition num_table :: "mapping \<Rightarrow> (int \<times> real) list \<Rightarrow> bool" where
  "num_table m nt \<longleftrightarrow>
     dbg_yearPositions m = nums nt \<and> dbg_sortedYears m = nums nt \<and> incr nt \<and> nt \<noteq> [] \<and>
     snd (hd nt) = 0.02 \<and> snd (last nt) = 0.98"

text \<open>The grid years of a build, and the segments of the table it returns: the span of
  normalised position, the gap in years and the midpoint year of the segment that starts at
  index \<open>i\<close>.\<close>

definition grid :: "int \<Rightarrow> book list \<Rightarrow> milestone list \<Rightarrow> int list" where
  "grid cy books ms = uniqueYears cy (collect_events books ms)"

definition segment_span :: "mapping \<Rightarrow> nat \<Rightarrow> jsnum" where
  "segment_span m i = js_sub (snd (dbg_sortedYears m ! Suc i)) (snd (dbg_sortedYears m ! i))"

definition segment_gap :: "mapping \<Rightarrow> nat \<Rightarrow> int" where
  "segment_gap m i = fst (dbg_sortedYears m ! Suc i) - fst (dbg_sortedYears m ! i)"

definition segment_mid :: "mapping \<Rightarrow> nat \<Rightarrow> int" where
  "segment_mid m i =
     round_half_up (of_int (fst (dbg_sortedYears m ! i) + fst (dbg_sortedYears m ! Suc i)) / 2)"

text \<open>Sample inputs, for the current year 2026: a book whose events span a century, a book
  without any date, a book dated by its writing only, a milestone whose display range follows
  the first book, and milestones in the current year, in the near future and in the far
  future.\<close>

definition sample_book :: book where
  "sample_book = \<lparr>book_id = ''sample'', dateEvents = Some (- 199, - 99), dateWritten = None\<rparr>"

definition undated_book :: book where
  "undated_book = \<lparr>book_id = ''undated'', dateEvents = None, dateWritten = None\<rparr>"

definition later_book :: book where
  "later_book = \<lparr>book_id = ''later'', dateEvents = None, dateWritten = Some (1, 50)\<rparr>"

definition sample_milestone :: milestone where
  "sample_milestone =
     \<lparr>milestone_id = ''sample'', milestone_year = - 49, displayStart = - 99, displayEnd = 1\<rparr>"

definition present_milestone :: milestone where
  "present_milestone =
     \<lparr>milestone_id = ''present'', milestone_year = 2026, displayStart = 2026, displayEnd = 2026\<rparr>"

definition future_milestone :: milestone where
  "future_milestone =
     \<lparr>milestone_id = ''future'', milestone_year = 2035, displayStart = 2030, displayEnd = 2040\<rparr>"

definition far_milestone :: milestone where
  "far_milestone =
     \<lparr>milestone_id = ''far'', milestone_year = 20005, displayStart = 20000, displayEnd = 20010\<rparr>"

section \<open>Auxiliary facts\<close>

subsection \<open>Segment weights\<close>

lemma math_min_Num: "math_min (Num a) (Num b) = Num (min a b)"
  by (simp add: min_def)

lemma math_min_list_Num:
  "xs \<noteq> [] \<Longrightarrow> math_min_list xs = num_of_int (Min (set xs))"
proof (induction xs)
  case Nil
  then show ?case by simp
next
  case (Cons x xs)
  show ?case
  proof (cases "xs = []")
    case True
    then show ?thesis by simp
  next
    case False
    with Cons have ih: "math_min_list xs = num_of_int (Min (set xs))" by simp
    have "Min (set (x # xs)) = min x (Min (set xs))"
      using False by simp
    then show ?thesis
      by (simp only: math_min_list.simps ih math_min_Num of_int_min)
  qed
qed

lemma durationBonus_ge1: "1 \<le> durationBonus d"
  by (simp add: durationBonus_def)

lemma math_max_Num: "math_max (Num a) (Num b) = Num (max a b)"
  by (simp add: max_def)

lemma density_Num:
  "(if js_lt (num_of_int d) (Num 100)
    then js_mul (Num c) (math_max (Num 1) (js_sub (Num 4) (js_div (num_of_int d) (Num 33))))
    else Num c) = Num (c * durationBonus d)"
  by (simp add: durationBonus_def js_sub_def math_max_Num del: math_max.simps)

lemma scrollWeight_eq:
  "scrollWeight branges mranges prevYear y = Num (segment_weight branges mranges prevYear y)"
proof -
  define mid where "mid = round_half_up (of_int (prevYear + y) / 2)"
  define bs where "bs = filter (\<lambda>r. range_start r \<le> mid \<and> mid \<le> range_end r) branges"
  have m: "bs \<noteq> [] \<Longrightarrow> math_min_list (map (\<lambda>r. range_end r - range_start r) bs)
        = num_of_int (Min (set (map (\<lambda>r. range_end r - range_start r) bs)))"
    by (intro math_min_list_Num) simp
  have "scrollWeight branges mranges prevYear y =
     (let w = Num (sqrt (abs (of_int (y - prevYear))));
          activeMilestones = getActiveMilestonesInfo mranges mid
      in if bs \<noteq> [] then
           (let densityMultiplier = Num (4 + of_nat (length bs) * 1.5);
                md = math_min_list (map (\<lambda>r. range_end r - range_start r) bs);
                densityMultiplier' =
                  (if js_lt md (Num 100)
                   then js_mul densityMultiplier
                          (math_max (Num 1) (js_sub (Num 4) (js_div md (Num 33))))
                   else densityMultiplier)
            in js_mul w densityMultiplier')
         else if am_count activeMilestones > 0 then
           js_mul w (Num (40 + of_nat (am_count activeMilestones) * 20))
         else w)"
    unfolding scrollWeight_def getActiveBooksInfo_def Let_def mid_def bs_def
    by (simp cong: if_cong)
  also have "\<dots> = Num (segment_weight branges mranges prevYear y)"
  proof (cases "bs = []")
    case True
    then show ?thesis
      unfolding segment_weight_def Let_def mid_def[symmetric] bs_def[symmetric]
      by (simp add: getActiveMilestonesInfo_def Let_def)
  next
    case False
    then show ?thesis
      unfolding segment_weight_def Let_def mid_def[symmetric] bs_def[symmetric] m[OF False]
        density_Num
      by simp
  qed
  finally show ?thesis .
qed

lemma segment_weight_nonneg: "0 \<le> segment_weight br mr p y"
  using durationBonus_ge1[of "Min (set (map (\<lambda>r. range_end r - range_start r)
     (filter (\<lambda>r. range_start r \<le> round_half_up (of_int (p + y) / 2) \<and> round_half_up (of_int (p + y) / 2) \<le> range_end r) br)))"]
  by (simp add: segment_weight_def Let_def)

lemma segment_weight_pos: "p \<noteq> y \<Longrightarrow> 0 < segment_weight br mr p y"
  using durationBonus_ge1[of "Min (set (map (\<lambda>r. range_end r - range_start r)
     (filter (\<lambda>r. range_start r \<le> round_half_up (of_int (p + y) / 2) \<and> round_half_up (of_int (p + y) / 2) \<le> range_end r) br)))"]
  by (simp add: segment_weight_def Let_def add_pos_nonneg)

lemma segment_weight_same: "segment_weight br mr y y = 0"
  by (simp add: segment_weight_def Let_def)

subsection \<open>The accumulation loop\<close>

lemma chain_incr: "chain br mr rt \<Longrightarrow> incr rt"
proof -
  assume "chain br mr rt"
  then have "successively (\<lambda>a b. fst a < fst b \<and> snd a < snd b) rt"
    unfolding chain_def
  proof (rule successively_mono)
    fix a b :: "int \<times> real"
    assume "fst a < fst b \<and> snd b - snd a = segment_weight br mr (fst a) (fst b)"
    then show "fst a < fst b \<and> snd a < snd b"
      using segment_weight_pos[of "fst a" "fst b" br mr] by auto
  qed
  moreover have "transp (\<lambda>a b :: int \<times> real. fst a < fst b \<and> snd a < snd b)"
    by (auto simp: transp_def)
  ultimately show ?thesis
    unfolding incr_def by (simp add: successively_conv_sorted_wrt)
qed

lemma map_set_new: "k \<notin> fst ` set tbl \<Longrightarrow> map_set k v tbl = tbl @ [(k, v)]"
  by (induction tbl) auto

lemma map_set_last:
  "k \<notin> fst ` set xs \<Longrightarrow> map_set k v (xs @ [(k, v0)]) = xs @ [(k, v)]"
  by (induction xs) auto

lemma fst_set_nums: "fst ` set (nums rt) = fst ` set rt"
  by (induction rt) auto

lemma incr_snoc_keys:
  assumes "incr (rt @ [(prev, a)])"
  shows "\<forall>p \<in> set rt. fst p < prev \<and> snd p < a"
  using assms by (auto simp: incr_def sorted_wrt_append)

lemma accumulate_chain:
  assumes "sorted (prev # ys)" and "chain br mr (rt @ [(prev, a)])"
  shows "\<exists>rt' total.
           accumulate br mr prev (Num a) (nums (rt @ [(prev, a)])) ys
             = (nums (rt @ (prev, a) # rt'), Num total) \<and>
           chain br mr (rt @ (prev, a) # rt') \<and>
           last ((prev, a) # rt') = (last (prev # ys), total) \<and>
           fst ` set ((prev, a) # rt') = set (prev # ys)"
  using assms
proof (induction ys arbitrary: prev a rt)
  case Nil
  then show ?case by (intro exI[of _ "[]"] exI[of _ a]) simp
next
  case (Cons y ys)
  let ?w = "segment_weight br mr prev y"
  from Cons.prems(1) have le: "prev \<le> y" and srt: "sorted (y # ys)" by auto
  have keys: "\<forall>p \<in> set rt. fst p < prev"
    using incr_snoc_keys[OF chain_incr[OF Cons.prems(2)]] by blast
  show ?case
  proof (cases "prev = y")
    case True
    then have w0: "?w = 0" by (simp add: segment_weight_same)
    have notin: "y \<notin> fst ` set (nums rt)"
      using keys True by (auto simp: fst_set_nums)
    have upd: "map_set y (Num a) (nums (rt @ [(prev, a)])) = nums (rt @ [(prev, a)])"
      using map_set_last[OF notin, of "Num a" "Num a"] True by simp
    from Cons.IH[OF _ Cons.prems(2)] srt True
    obtain rt' total where
      r: "accumulate br mr prev (Num a) (nums (rt @ [(prev, a)])) ys
             = (nums (rt @ (prev, a) # rt'), Num total)"
        "chain br mr (rt @ (prev, a) # rt')"
        "last ((prev, a) # rt') = (last (prev # ys), total)"
        "fst ` set ((prev, a) # rt') = set (prev # ys)"
      by blast
    have "accumulate br mr prev (Num a) (nums (rt @ [(prev, a)])) (y # ys)
        = accumulate br mr prev (Num a) (nums (rt @ [(prev, a)])) ys"
      using upd True w0 by (simp add: scrollWeight_eq del: map_append)
    with r True show ?thesis
      by (intro exI[of _ rt'] exI[of _ total]) auto
  next
    case False
    with le have lt: "prev < y" by simp
    have notin: "y \<notin> fst ` set (nums (rt @ [(prev, a)]))"
      using keys lt by (auto simp: fst_set_nums)
    have upd: "map_set y (Num (a + ?w)) (nums (rt @ [(prev, a)]))
        = nums ((rt @ [(prev, a)]) @ [(y, a + ?w)])"
      using map_set_new[OF notin, of "Num (a + ?w)"] by simp
    have ch: "chain br mr ((rt @ [(prev, a)]) @ [(y, a + ?w)])"
      using Cons.prems(2) lt unfolding chain_def
      by (subst successively_append_iff) simp
    from Cons.IH[OF srt ch]
    obtain rt' total where
      r: "accumulate br mr y (Num (a + ?w)) (nums ((rt @ [(prev, a)]) @ [(y, a + ?w)])) ys
             = (nums ((rt @ [(prev, a)]) @ (y, a + ?w) # rt'), Num total)"
        "chain br mr ((rt @ [(prev, a)]) @ (y, a + ?w) # rt')"
        "last ((y, a + ?w) # rt') = (last (y # ys), total)"
        "fst ` set ((y, a + ?w) # rt') = set (y # ys)"
      by blast
    have "accumulate br mr prev (Num a) (nums (rt @ [(prev, a)])) (y # ys)
        = accumulate br mr y (Num (a + ?w)) (nums ((rt @ [(prev, a)]) @ [(y, a + ?w)])) ys"
      using upd by (simp add: scrollWeight_eq del: map_append)
    with r show ?thesis
      by (intro exI[of _ "(y, a + ?w) # rt'"] exI[of _ total]) auto
  qed
qed

lemma yearPositions_chain:
  assumes "sorted years" and "years \<noteq> []"
  shows "\<exists>rt total.
           yearPositions br mr years = (nums rt, Num total) \<and> chain br mr rt \<and> rt \<noteq> [] \<and>
           hd rt = (hd years, 0) \<and> last rt = (last years, total) \<and> fst ` set rt = set years"
proof -
  from assms(2) obtain y0 ys where ys: "years = y0 # ys" by (cases years) auto
  have "chain br mr ([] @ [(y0, 0)])" by (simp add: chain_def)
  from accumulate_chain[OF assms(1)[unfolded ys] this]
  obtain rt' total where
    r: "accumulate br mr y0 (Num 0) (nums ([] @ [(y0, 0)])) ys = (nums ([] @ (y0, 0) # rt'), Num total)"
      "chain br mr ([] @ (y0, 0) # rt')"
      "last ((y0, 0) # rt') = (last (y0 # ys), total)"
      "fst ` set ((y0, 0) # rt') = set (y0 # ys)"
    by blast
  show ?thesis
    using r ys by (intro exI[of _ "(y0, 0) # rt'"] exI[of _ total]) (simp add: yearPositions_def)
qed

subsection \<open>Normalisation and sorting\<close>

lemma normalized_Num: "tot \<noteq> 0 \<Longrightarrow> normalized (Num tot) (Num p) = Num (norm_pos tot p)"
  by (simp add: normalized_def norm_pos_def)

lemma normalized_zero: "normalized (Num 0) (Num 0) = NaN"
  by (simp add: normalized_def inf_of_sign_def)

lemma norm_pos_zero: "norm_pos tot 0 = 0.02"
  by (simp add: norm_pos_def marginStart_def)

lemma norm_pos_total: "tot \<noteq> 0 \<Longrightarrow> norm_pos tot tot = 0.98"
  by (simp add: norm_pos_def marginStart_def usableRange_def marginEnd_def)

lemma norm_pos_less: "0 < tot \<Longrightarrow> p < q \<Longrightarrow> norm_pos tot p < norm_pos tot q"
  by (simp add: norm_pos_def usableRange_def marginStart_def marginEnd_def divide_strict_right_mono)

lemma foldl_map_set:
  "distinct (map fst tbl) \<Longrightarrow> fst ` set acc \<inter> fst ` set tbl = {} \<Longrightarrow>
   foldl (\<lambda>m (y, pos). map_set y (f pos) m) acc tbl = acc @ map (apsnd f) tbl"
proof (induction tbl arbitrary: acc)
  case Nil
  then show ?case by simp
next
  case (Cons e tbl)
  obtain y pos where e: "e = (y, pos)" by (cases e)
  from Cons.prems e have notin: "y \<notin> fst ` set acc" by auto
  have disj: "fst ` set (acc @ [(y, f pos)]) \<inter> fst ` set tbl = {}"
    using Cons.prems e by auto
  from Cons.prems have d: "distinct (map fst tbl)" by simp
  show ?case
    using Cons.IH[OF d disj] by (simp add: e map_set_new[OF notin])
qed

lemma normalizedPositions_map:
  "distinct (map fst tbl) \<Longrightarrow> normalizedPositions tbl t = map (apsnd (normalized t)) tbl"
  using foldl_map_set[of tbl "[]" "normalized t"] by (simp add: normalizedPositions_def)

lemma incr_distinct: "incr rt \<Longrightarrow> distinct (map fst rt)"
proof -
  assume "incr rt"
  then have "sorted_wrt (\<lambda>a b. fst a < fst b) rt"
    unfolding incr_def by (rule sorted_wrt_mono_rel[rotated]) simp
  then have "sorted_wrt (<) (map fst rt)" by (simp add: sorted_wrt_map)
  then show ?thesis by (simp add: strict_sorted_iff)
qed

lemma sort_by_id: "successively (\<lambda>a b. \<not> gt a b) xs \<Longrightarrow> sort_by gt xs = xs"
proof (induction xs)
  case Nil
  then show ?case by (simp add: sort_by_def)
next
  case (Cons x xs)
  then have "sort_by gt xs = xs" by (cases xs) (auto simp: sort_by_def)
  then have "sort_by gt (x # xs) = insert_by gt x xs" by (simp add: sort_by_def)
  also have "\<dots> = x # xs" using Cons.prems by (cases xs) auto
  finally show ?case .
qed

lemma sortedYears_nums: "incr nt \<Longrightarrow> sortedYears (nums nt) = nums nt"
proof -
  assume "incr nt"
  then have "successively (\<lambda>a b. fst a < fst b \<and> snd a < snd b) nt"
    unfolding incr_def by (rule successively_if_sorted_wrt)
  then have "successively (\<lambda>a b. \<not> by_position (apsnd Num a) (apsnd Num b)) nt"
    by (rule successively_mono) (auto simp: by_position_def js_gt_def js_sub_def)
  then have "successively (\<lambda>a b. \<not> by_position a b) (nums nt)"
    by (simp add: successively_map)
  then show ?thesis unfolding sortedYears_def by (rule sort_by_id)
qed

lemma sort_by_year_nums: "incr nt \<Longrightarrow> sort_by by_year (nums nt) = nums nt"
proof -
  assume "incr nt"
  then have "successively (\<lambda>a b. fst a < fst b \<and> snd a < snd b) nt"
    unfolding incr_def by (rule successively_if_sorted_wrt)
  then have "successively (\<lambda>a b. \<not> by_year (apsnd Num a) (apsnd Num b)) nt"
    by (rule successively_mono) (auto simp: by_year_def)
  then have "successively (\<lambda>a b. \<not> by_year a b) (nums nt)"
    by (simp add: successively_map)
  then show ?thesis by (rule sort_by_id)
qed

lemma incr_norm: "0 < tot \<Longrightarrow> incr rt \<Longrightarrow> incr (map (apsnd (norm_pos tot)) rt)"
  unfolding incr_def sorted_wrt_map
  by (erule sorted_wrt_mono_rel[rotated]) (auto simp: norm_pos_less)

lemma incr_hd_last:
  assumes "incr rt" and "rt \<noteq> []"
  shows "snd (hd rt) \<le> snd (last rt)" and "snd (hd rt) = snd (last rt) \<Longrightarrow> \<exists>e. rt = [e]"
proof -
  from assms(2) obtain e es where rt: "rt = e # es" by (cases rt) auto
  show "snd (hd rt) \<le> snd (last rt)"
    using assms(1) unfolding rt incr_def by (cases "es = []") (auto simp: less_imp_le)
  show "\<exists>e. rt = [e]" if "snd (hd rt) = snd (last rt)"
    using assms(1) that unfolding rt incr_def by (cases "es = []") auto
qed

subsection \<open>The table of a built mapping\<close>

lemma set_uniqueYears: "set (uniqueYears cy evs) = insert cy (year ` set evs)"
  by (simp add: uniqueYears_def set_of_array_def)

lemma sorted_uniqueYears: "sorted (uniqueYears cy evs)"
  by (simp add: uniqueYears_def)

lemma uniqueYears_nonempty: "uniqueYears cy evs \<noteq> []"
proof
  assume "uniqueYears cy evs = []"
  then have "set (uniqueYears cy evs) = {}" by simp
  then show False by (simp add: set_uniqueYears)
qed

lemma build_structure:
  assumes ne: "collect_events books ms \<noteq> []"
  shows "\<exists>rt tot.
     chain (bookRanges books) (milestoneRanges ms) rt \<and> rt \<noteq> [] \<and>
     hd rt = (hd (uniqueYears cy (collect_events books ms)), 0) \<and>
     last rt = (last (uniqueYears cy (collect_events books ms)), tot) \<and>
     fst ` set rt = set (uniqueYears cy (collect_events books ms)) \<and>
     dbg_yearPositions (buildYearMapping cy books ms) = map (apsnd (normalized (Num tot))) (nums rt) \<and>
     dbg_sortedYears (buildYearMapping cy books ms) =
        sortedYears (dbg_yearPositions (buildYearMapping cy books ms)) \<and>
     scrollToYear (buildYearMapping cy books ms) =
        scrollToYear_tbl (dbg_sortedYears (buildYearMapping cy books ms)) \<and>
     yearToScroll (buildYearMapping cy books ms) =
        yearToScroll_tbl (dbg_yearPositions (buildYearMapping cy books ms)) \<and>
     minYear (buildYearMapping cy books ms) = year (hd (collect_events books ms)) \<and>
     maxYear (buildYearMapping cy books ms) = cy \<and>
     events (buildYearMapping cy books ms) = collect_events books ms"
proof -
  let ?evs = "collect_events books ms"
  let ?years = "uniqueYears cy ?evs"
  from yearPositions_chain[OF sorted_uniqueYears uniqueYears_nonempty,
      of "bookRanges books" "milestoneRanges ms" cy ?evs]
  obtain rt tot where
    r: "yearPositions (bookRanges books) (milestoneRanges ms) ?years = (nums rt, Num tot)"
      "chain (bookRanges books) (milestoneRanges ms) rt" "rt \<noteq> []"
      "hd rt = (hd ?years, 0)" "last rt = (last ?years, tot)" "fst ` set rt = set ?years"
    by blast
  have d: "distinct (map fst (nums rt))"
    using incr_distinct[OF chain_incr[OF r(2)]] by (simp add: comp_def)
  from ne obtain e0 es where evs: "?evs = e0 # es" by (cases ?evs) auto
  have "buildYearMapping cy books ms =
      \<lparr>scrollToYear = scrollToYear_tbl (sortedYears (normalizedPositions (nums rt) (Num tot))),
       yearToScroll = yearToScroll_tbl (normalizedPositions (nums rt) (Num tot)),
       minYear = year e0, maxYear = cy, events = ?evs,
       dbg_yearPositions = normalizedPositions (nums rt) (Num tot),
       dbg_sortedYears = sortedYears (normalizedPositions (nums rt) (Num tot))\<rparr>"
    unfolding buildYearMapping_def Let_def evs[symmetric] r(1)
    by (simp add: evs)
  then show ?thesis
    using r(2-6) evs by (intro exI[of _ rt] exI[of _ tot]) (simp add: normalizedPositions_map[OF d])
qed

lemma build_cases:
  fixes cy :: int
  assumes ne: "collect_events books ms \<noteq> []"
  defines "m \<equiv> buildYearMapping cy books ms"
  defines "years \<equiv> uniqueYears cy (collect_events books ms)"
  shows "scrollToYear m = scrollToYear_tbl (dbg_sortedYears m) \<and>
         yearToScroll m = yearToScroll_tbl (dbg_yearPositions m) \<and>
         minYear m = year (hd (collect_events books ms)) \<and> maxYear m = cy \<and>
         ((\<exists>y0. nan_table m y0 \<and> set years = {y0}) \<or>
          (\<exists>nt. num_table m nt \<and> fst (hd nt) = hd years \<and> fst (last nt) = last years \<and>
                fst ` set nt = set years \<and>
                (\<exists>rt tot. 0 < tot \<and> chain (bookRanges books) (milestoneRanges ms) rt \<and>
                   nt = map (apsnd (norm_pos tot)) rt)))"
proof -
  from build_structure[OF ne, of cy]
  obtain rt tot where
    r: "chain (bookRanges books) (milestoneRanges ms) rt" "rt \<noteq> []"
       "hd rt = (hd years, 0)" "last rt = (last years, tot)" "fst ` set rt = set years"
       "dbg_yearPositions m = map (apsnd (normalized (Num tot))) (nums rt)"
       "dbg_sortedYears m = sortedYears (dbg_yearPositions m)"
       "scrollToYear m = scrollToYear_tbl (dbg_sortedYears m)"
       "yearToScroll m = yearToScroll_tbl (dbg_yearPositions m)"
       "minYear m = year (hd (collect_events books ms))" "maxYear m = cy"
    unfolding m_def years_def by blast
  have inc: "incr rt" by (rule chain_incr[OF r(1)])
  have tot0: "0 \<le> tot" using incr_hd_last(1)[OF inc r(2)] r(3,4) by simp
  have "(\<exists>y0. nan_table m y0 \<and> set years = {y0}) \<or>
          (\<exists>nt. num_table m nt \<and> fst (hd nt) = hd years \<and> fst (last nt) = last years \<and>
                fst ` set nt = set years \<and>
                (\<exists>rt tot. 0 < tot \<and> chain (bookRanges books) (milestoneRanges ms) rt \<and>
                   nt = map (apsnd (norm_pos tot)) rt))"
  proof (cases "tot = 0")
    case True
    then obtain e where e: "rt = [e]" using incr_hd_last(2)[OF inc r(2)] r(3,4) by auto
    with r(3) have rt: "rt = [(hd years, 0)]" by simp
    have "nan_table m (hd years)"
      using r(6,7) True
      by (simp add: nan_table_def rt normalized_zero sortedYears_def sort_by_def)
    moreover have "set years = {hd years}" using r(5) by (simp add: rt)
    ultimately show ?thesis by blast
  next
    case False
    with tot0 have pos: "0 < tot" by simp
    let ?nt = "map (apsnd (norm_pos tot)) rt"
    have eq: "map (apsnd (normalized (Num tot))) (nums rt) = nums ?nt"
      using False by (simp add: normalized_Num comp_def apsnd_def map_prod_def case_prod_beta)
    have inc': "incr ?nt" by (rule incr_norm[OF pos inc])
    have yp: "dbg_yearPositions m = nums ?nt" by (simp only: r(6) eq)
    have sy: "dbg_sortedYears m = nums ?nt" by (simp only: r(7) yp sortedYears_nums[OF inc'])
    have h: "snd (hd ?nt) = 0.02" using r(2,3) by (simp add: hd_map norm_pos_zero)
    have l: "snd (last ?nt) = 0.98" using r(2,4) False by (simp add: last_map norm_pos_total)
    have "num_table m ?nt"
      unfolding num_table_def using yp sy inc' h l r(2) by simp
    moreover have "fst (hd ?nt) = hd years" "fst (last ?nt) = last years"
      using r(2,3,4) by (simp_all add: hd_map last_map)
    moreover have "fst ` set ?nt = set years"
      using r(5) by (simp add: image_image)
    ultimately show ?thesis using pos r(1) by blast
  qed
  with r(8-11) show ?thesis by simp
qed

subsection \<open>The query scrollToYear on an increasing table\<close>

lemma round_half_up_of_int: "round_half_up (of_int a) = a"
  unfolding round_half_up_def by linarith

lemma round_half_up_between:
  assumes "of_int a \<le> x" and "x \<le> of_int b"
  shows "a \<le> round_half_up x" and "round_half_up x \<le> b"
  using assms unfolding round_half_up_def by linarith+

lemma js_le_NaN: "js_le c NaN = False"
  by (cases c) simp_all

lemma js_bounds_Num:
  "js_ge s (Num p1) \<Longrightarrow> js_le s (Num p2) \<Longrightarrow> \<exists>x. s = Num x \<and> p1 \<le> x \<and> x \<le> p2"
  by (cases s) (simp_all add: js_ge_def)

lemma incr_Cons: "incr (e # es) \<longleftrightarrow> (\<forall>x \<in> set es. fst e < fst x \<and> snd e < snd x) \<and> incr es"
  by (simp add: incr_def)

lemma incr_mono:
  "incr nt \<Longrightarrow> a \<in> set nt \<Longrightarrow> b \<in> set nt \<Longrightarrow> fst a < fst b \<Longrightarrow> snd a < snd b"
  by (induction nt) (auto simp: incr_Cons)

lemma incr_key_unique:
  "incr nt \<Longrightarrow> a \<in> set nt \<Longrightarrow> b \<in> set nt \<Longrightarrow> fst a = fst b \<Longrightarrow> a = b"
  by (induction nt) (auto simp: incr_Cons)

lemma incr_hd_least:
  "incr nt \<Longrightarrow> e \<in> set nt \<Longrightarrow> e = hd nt \<or> (fst (hd nt) < fst e \<and> snd (hd nt) < snd e)"
  by (cases nt) (auto simp: incr_Cons)

lemma incr_last_greatest:
  "incr nt \<Longrightarrow> e \<in> set nt \<Longrightarrow> e = last nt \<or> (fst e < fst (last nt) \<and> snd e < snd (last nt))"
  by (induction nt) (auto simp: incr_Cons)

lemma incr_fst_le_last: "incr nt \<Longrightarrow> e \<in> set nt \<Longrightarrow> fst e \<le> fst (last nt)"
  using incr_last_greatest[of nt e] by auto

lemma incr_hd_le_fst: "incr nt \<Longrightarrow> e \<in> set nt \<Longrightarrow> fst (hd nt) \<le> fst e"
  using incr_hd_least[of nt e] by auto

lemma interp_year_value:
  assumes "p1 < p2" and "p1 \<le> x" and "x \<le> p2" and "y1 < y2"
  shows "\<exists>y. math_round (js_add (num_of_int y1)
            (js_mul (js_div (js_sub (Num x) (Num p1)) (js_sub (Num p2) (Num p1)))
               (num_of_int (y2 - y1)))) = num_of_int y \<and> y1 \<le> y \<and> y \<le> y2"
proof -
  let ?t = "(x - p1) / (p2 - p1)"
  let ?v = "of_int y1 + ?t * of_int (y2 - y1) :: real"
  have t0: "0 \<le> ?t" and t1: "?t \<le> 1" using assms by simp_all
  have d: "0 \<le> (of_int (y2 - y1) :: real)" using assms(4) by simp
  have "0 \<le> ?t * of_int (y2 - y1)" using t0 d by (rule mult_nonneg_nonneg)
  then have lo: "of_int y1 \<le> ?v" by linarith
  have "?t * of_int (y2 - y1) \<le> 1 * of_int (y2 - y1)"
    using t1 d by (rule mult_right_mono)
  then have "?t * of_int (y2 - y1) \<le> (of_int y2 - of_int y1 :: real)" by simp
  then have hi: "?v \<le> of_int y2" by linarith
  have "math_round (js_add (num_of_int y1)
            (js_mul (js_div (js_sub (Num x) (Num p1)) (js_sub (Num p2) (Num p1)))
               (num_of_int (y2 - y1)))) = num_of_int (round_half_up ?v)"
    using assms(1) by (simp add: js_sub_def)
  then show ?thesis
    using round_half_up_between[OF lo hi] by blast
qed

lemma interpolate_year_range:
  "incr nt \<Longrightarrow> interpolate_year (nums nt) s = Some r \<Longrightarrow>
   \<exists>y. r = num_of_int y \<and> fst (hd nt) \<le> y \<and> y \<le> fst (last nt)"
proof (induction nt rule: induct_list012)
  case 1
  then show ?case by simp
next
  case (2 e)
  then show ?case by (cases e) simp
next
  case (3 e1 e2 rest)
  obtain y1 p1 where e1: "e1 = (y1, p1)" by (cases e1)
  obtain y2 p2 where e2: "e2 = (y2, p2)" by (cases e2)
  from "3.prems"(1) have lt: "y1 < y2" "p1 < p2" and inc: "incr (e2 # rest)"
    by (auto simp: incr_Cons e1 e2)
  have y2_last: "y2 \<le> fst (last (e2 # rest))"
    using incr_fst_le_last[OF inc, of e2] by (simp add: e2)
  show ?case
  proof (cases "js_ge s (Num p1) \<and> js_le s (Num p2)")
    case True
    then obtain x where x: "s = Num x" "p1 \<le> x" "x \<le> p2"
      using js_bounds_Num by blast
    from interp_year_value[OF lt(2) x(2,3) lt(1)]
    obtain y where y: "math_round (js_add (num_of_int y1)
            (js_mul (js_div (js_sub (Num x) (Num p1)) (js_sub (Num p2) (Num p1)))
               (num_of_int (y2 - y1)))) = num_of_int y" "y1 \<le> y" "y \<le> y2"
      by blast
    have "r = num_of_int y"
      using "3.prems"(2) True y(1) by (simp add: e1 e2 x(1))
    then show ?thesis using y(2,3) y2_last by (auto simp: e1)
  next
    case False
    then have "interpolate_year (nums (e2 # rest)) s = Some r"
      using "3.prems"(2) by (auto simp: e1 e2)
    from "3.IH"(2)[OF inc this]
    obtain y where "r = num_of_int y" "fst (hd (e2 # rest)) \<le> y" "y \<le> fst (last (e2 # rest))"
      by blast
    then show ?thesis using lt(1) by (auto simp: e1 e2)
  qed
qed

lemma interpolate_year_exact:
  "incr ((y1, p1) # rest) \<Longrightarrow> (y, p) \<in> set rest \<Longrightarrow>
   interpolate_year (nums ((y1, p1) # rest)) (Num p) = Some (num_of_int y)"
proof (induction rest arbitrary: y1 p1)
  case Nil
  then show ?case by simp
next
  case (Cons e2 rest)
  obtain y2 p2 where e2: "e2 = (y2, p2)" by (cases e2)
  from Cons.prems(1) have lt: "y1 < y2" "p1 < p2" and inc: "incr ((y2, p2) # rest)"
    by (auto simp: incr_Cons e2)
  show ?case
  proof (cases "(y, p) = (y2, p2)")
    case True
    then have "p = p2" "y = y2" by simp_all
    then show ?thesis
      using lt by (simp add: e2 js_ge_def js_sub_def round_half_up_of_int)
  next
    case False
    with Cons.prems(2) have mem: "(y, p) \<in> set rest" by (auto simp: e2)
    with inc have "p2 < p" by (auto simp: incr_Cons)
    then have "interpolate_year (nums ((y1, p1) # e2 # rest)) (Num p)
        = interpolate_year (nums ((y2, p2) # rest)) (Num p)"
      by (simp add: e2)
    with Cons.IH[OF inc mem] show ?thesis by (simp add: e2)
  qed
qed

lemma clamp_Num: "math_max (Num 0) (math_min (Num 1) (Num p)) = Num (max 0 (min 1 p))"
  by (simp add: max_def min_def)

lemma clamp_cases:
  "\<exists>c. math_max (Num 0) (math_min (Num 1) q) = c \<and> (c = NaN \<or> (\<exists>x. c = Num x \<and> 0 \<le> x \<and> x \<le> 1))"
  by (cases q) (auto simp: max_def min_def)

lemma scrollToYear_nan: "scrollToYear_tbl [(y0, NaN)] q = Inr (num_of_int y0)"
  by (simp add: scrollToYear_tbl_def Let_def js_le_NaN js_ge_def)

lemma yearToScroll_nan: "yearToScroll_tbl [(y0, NaN)] y = Inr NaN"
  by (simp add: yearToScroll_tbl_def Let_def sort_by_def)

lemma scrollToYear_range:
  assumes "incr nt" and "nt \<noteq> []"
  shows "\<exists>y. scrollToYear_tbl (nums nt) q = Inr (num_of_int y) \<and>
             fst (hd nt) \<le> y \<and> y \<le> fst (last nt)"
proof -
  from assms(2) obtain e es where nt: "nt = e # es" by (cases nt) auto
  have hl: "fst (hd nt) \<le> fst (last nt)"
    using incr_fst_le_last[OF assms(1), of "hd nt"] assms(2) by simp
  define c where "c = math_max (Num 0) (math_min (Num 1) q)"
  have lastn: "last (nums nt) = apsnd Num (last nt)" using assms(2) by (simp add: last_map)
  show ?thesis
  proof (cases "js_le c (Num (snd e))")
    case True
    then have "scrollToYear_tbl (nums nt) q = Inr (num_of_int (fst e))"
      by (simp add: scrollToYear_tbl_def nt c_def Let_def)
    then show ?thesis using hl by (auto simp: nt)
  next
    case f1: False
    show ?thesis
    proof (cases "js_ge c (Num (snd (last nt)))")
      case True
      then have "scrollToYear_tbl (nums nt) q = Inr (num_of_int (fst (last nt)))"
        using f1 lastn unfolding scrollToYear_tbl_def c_def[symmetric] Let_def
        by (simp add: nt)
      then show ?thesis using hl by auto
    next
      case f2: False
      show ?thesis
      proof (cases "interpolate_year (nums nt) c")
        case None
        then have "scrollToYear_tbl (nums nt) q = Inr (num_of_int (fst (last nt)))"
          using f1 f2 lastn unfolding scrollToYear_tbl_def c_def[symmetric] Let_def
          by (simp add: nt)
        then show ?thesis using hl by auto
      next
        case (Some r)
        then have "scrollToYear_tbl (nums nt) q = Inr r"
          using f1 f2 lastn unfolding scrollToYear_tbl_def c_def[symmetric] Let_def
          by (simp add: nt)
        with interpolate_year_range[OF assms(1) Some] show ?thesis by auto
      qed
    qed
  qed
qed

lemma scrollToYear_exact:
  assumes "incr nt" and "(y, p) \<in> set nt" and "0 \<le> p" and "p \<le> 1"
  shows "scrollToYear_tbl (nums nt) (Num p) = Inr (num_of_int y)"
proof -
  from assms(2) obtain e es where nt: "nt = e # es" by (cases nt) auto
  obtain y1 p1 where e: "e = (y1, p1)" by (cases e)
  have c: "math_max (Num 0) (math_min (Num 1) (Num p)) = Num p"
    using assms(3,4) by (simp add: clamp_Num)
  have lastn: "last (nums nt) = apsnd Num (last nt)" using nt by (simp add: last_map)
  show ?thesis
  proof (cases "(y, p) = e")
    case True
    then show ?thesis
      unfolding scrollToYear_tbl_def c Let_def by (auto simp: nt)
  next
    case False
    with assms(2) have mem: "(y, p) \<in> set es" by (simp add: nt)
    with assms(1) have gt: "p1 < p" by (auto simp: nt e incr_Cons)
    have ex: "interpolate_year (nums nt) (Num p) = Some (num_of_int y)"
      using interpolate_year_exact[OF assms(1)[unfolded nt e] mem] by (simp add: nt e)
    show ?thesis
    proof (cases "js_ge (Num p) (Num (snd (last nt)))")
      case True
      then have "(y, p) = last nt"
        using incr_last_greatest[OF assms(1,2)] by (auto simp: js_ge_def)
      then have "fst (last nt) = y" by (metis fst_conv)
      then show ?thesis
        using True gt lastn unfolding scrollToYear_tbl_def c Let_def
        by (simp add: nt e)
    next
      case f2: False
      then show ?thesis
        using gt lastn ex unfolding scrollToYear_tbl_def c Let_def
        by (simp add: nt e)
    qed
  qed
qed

subsection \<open>The query yearToScroll on an increasing table\<close>

lemma map_get_None: "y \<notin> fst ` set tbl \<Longrightarrow> map_get tbl y = None"
  by (induction tbl) auto

lemma map_get_nums:
  "incr nt \<Longrightarrow> (y, p) \<in> set nt \<Longrightarrow> map_get (nums nt) y = Some (Num p)"
proof (induction nt)
  case Nil
  then show ?case by simp
next
  case (Cons e nt)
  show ?case
  proof (cases "fst e = y")
    case True
    have "e \<in> set (e # nt)" by simp
    from incr_key_unique[OF Cons.prems(1) this Cons.prems(2)] True
    have "e = (y, p)" by simp
    then show ?thesis by simp
  next
    case False
    with Cons show ?thesis by (auto simp: incr_Cons)
  qed
qed

lemma yearToScroll_exact:
  "incr nt \<Longrightarrow> (y, p) \<in> set nt \<Longrightarrow> yearToScroll_tbl (nums nt) y = Inr (Num p)"
  by (simp add: yearToScroll_tbl_def map_get_nums)

lemma yearToScroll_below:
  assumes "incr nt" and "nt \<noteq> []" and "y \<le> fst (hd nt)"
  shows "yearToScroll_tbl (nums nt) y = Inr (Num (snd (hd nt)))"
proof (cases "y \<in> fst ` set nt")
  case True
  then obtain p where mem: "(y, p) \<in> set nt" by force
  from incr_hd_least[OF assms(1) mem] assms(3) have "(y, p) = hd nt" by auto
  then have "snd (hd nt) = p" by (metis snd_conv)
  with yearToScroll_exact[OF assms(1) mem] show ?thesis by simp
next
  case False
  then have "y \<notin> fst ` set (nums nt)" unfolding fst_set_nums .
  then have none: "map_get (nums nt) y = None" by (rule map_get_None)
  from assms(2) obtain e es where nt: "nt = e # es" by (cases nt) auto
  show ?thesis
    using assms(3)
    unfolding yearToScroll_tbl_def none sort_by_year_nums[OF assms(1)] Let_def
    by (simp add: nt)
qed

lemma yearToScroll_above:
  assumes "incr nt" and "nt \<noteq> []" and "fst (last nt) \<le> y"
  shows "yearToScroll_tbl (nums nt) y = Inr (Num (snd (last nt)))"
proof (cases "y \<in> fst ` set nt")
  case True
  then obtain p where mem: "(y, p) \<in> set nt" by force
  from incr_last_greatest[OF assms(1) mem] assms(3) have "(y, p) = last nt" by auto
  then have "snd (last nt) = p" by (metis snd_conv)
  with yearToScroll_exact[OF assms(1) mem] show ?thesis by simp
next
  case False
  then have "y \<notin> fst ` set (nums nt)" unfolding fst_set_nums .
  then have none: "map_get (nums nt) y = None" by (rule map_get_None)
  from assms(2) obtain e es where nt: "nt = e # es" by (cases nt) auto
  have lastn: "last (nums nt) = apsnd Num (last nt)" using assms(2) by (simp add: last_map)
  have hl: "fst (hd nt) \<le> fst (last nt)"
    using incr_fst_le_last[OF assms(1), of "hd nt"] assms(2) by simp
  have "hd nt \<in> set nt" using assms(2) by simp
  then have "fst (hd nt) \<noteq> y" using False by force
  with hl assms(3) have "\<not> y \<le> fst e" by (simp add: nt)
  then show ?thesis
    using assms(3) lastn
    unfolding yearToScroll_tbl_def none sort_by_year_nums[OF assms(1)] Let_def
    by (simp add: nt)
qed

lemma scrollToYear_zero:
  assumes "incr nt" and "nt \<noteq> []" and "p \<le> 0" and "0 \<le> snd (hd nt)"
  shows "scrollToYear_tbl (nums nt) (Num p) = Inr (num_of_int (fst (hd nt)))"
proof -
  from assms(2) obtain e es where nt: "nt = e # es" by (cases nt) auto
  have c: "math_max (Num 0) (math_min (Num 1) (Num p)) = Num 0"
    using assms(3) by (simp add: clamp_Num)
  show ?thesis
    using assms(4) unfolding scrollToYear_tbl_def c Let_def by (simp add: nt)
qed

lemma scrollToYear_one:
  assumes "incr nt" and "nt \<noteq> []" and "1 \<le> p" and "snd (last nt) \<le> 1"
  shows "scrollToYear_tbl (nums nt) (Num p) = Inr (num_of_int (fst (last nt)))"
proof -
  from assms(2) obtain e es where nt: "nt = e # es" by (cases nt) auto
  have c: "math_max (Num 0) (math_min (Num 1) (Num p)) = Num 1"
    using assms(3) by (simp add: clamp_Num)
  have lastn: "last (nums nt) = apsnd Num (last nt)" using assms(2) by (simp add: last_map)
  show ?thesis
  proof (cases "1 \<le> snd e")
    case True
    have "e \<in> set nt" by (simp add: nt)
    from incr_last_greatest[OF assms(1) this] True assms(4) have "e = last nt" by auto
    then show ?thesis
      using True unfolding scrollToYear_tbl_def c Let_def by (simp add: nt)
  next
    case False
    then show ?thesis
      using assms(4) lastn unfolding scrollToYear_tbl_def c Let_def
      by (simp add: nt js_ge_def)
  qed
qed

lemma incr_hd_le_snd: "incr nt \<Longrightarrow> e \<in> set nt \<Longrightarrow> snd (hd nt) \<le> snd e"
  using incr_hd_least[of nt e] by auto

lemma incr_snd_le_last: "incr nt \<Longrightarrow> e \<in> set nt \<Longrightarrow> snd e \<le> snd (last nt)"
  using incr_last_greatest[of nt e] by auto

lemma num_table_bounds:
  assumes "num_table m nt" and "(y, p) \<in> set nt"
  shows "0 \<le> p" and "p \<le> 1"
proof -
  from assms(1) have inc: "incr nt" and h: "snd (hd nt) = 0.02" and l: "snd (last nt) = 0.98"
    by (simp_all add: num_table_def)
  from incr_hd_le_snd[OF inc assms(2)] h show "0 \<le> p" by simp
  from incr_snd_le_last[OF inc assms(2)] l show "p \<le> 1" by simp
qed

subsection \<open>Queries on a built mapping\<close>

lemma sorted_hd_least: "sorted xs \<Longrightarrow> x \<in> set xs \<Longrightarrow> \<forall>y \<in> set xs. x \<le> y \<Longrightarrow> hd xs = x"
  by (cases xs) (auto simp: order.antisym)

lemma sorted_last_greatest:
  "sorted xs \<Longrightarrow> x \<in> set xs \<Longrightarrow> \<forall>y \<in> set xs. y \<le> x \<Longrightarrow> last xs = x"
  by (induction xs) (auto simp: order.antisym)

lemma sorted_hd_le: "sorted xs \<Longrightarrow> x \<in> set xs \<Longrightarrow> hd xs \<le> x"
  by (cases xs) auto

lemma sorted_le_last: "sorted xs \<Longrightarrow> x \<in> set xs \<Longrightarrow> x \<le> last xs"
  by (induction xs) auto

lemma set_grid: "set (grid cy books ms) = insert cy (year ` set (collect_events books ms))"
  by (simp add: grid_def set_uniqueYears)

lemma sorted_grid: "sorted (grid cy books ms)"
  by (simp add: grid_def sorted_uniqueYears)

lemma grid_nonempty: "grid cy books ms \<noteq> []"
  by (simp add: grid_def uniqueYears_nonempty)

lemma sorted_collect_events: "sorted (map year (collect_events books ms))"
  by (simp add: collect_events_def)

lemma minYear_least:
  assumes "collect_events books ms \<noteq> []"
  shows "year (hd (collect_events books ms)) \<in> year ` set (collect_events books ms)"
    and "\<forall>e \<in> set (collect_events books ms). year (hd (collect_events books ms)) \<le> year e"
proof -
  let ?evs = "collect_events books ms"
  show "year (hd ?evs) \<in> year ` set ?evs" using assms by simp
  have "hd (map year ?evs) \<le> y" if "y \<in> set (map year ?evs)" for y
    using sorted_hd_le[OF sorted_collect_events that] .
  then show "\<forall>e \<in> set ?evs. year (hd ?evs) \<le> year e"
    using assms by (simp add: hd_map)
qed

text \<open>What a mapping built from at least one event looks like.\<close>

lemma built:
  fixes cy :: int
  assumes ne: "collect_events books ms \<noteq> []"
  defines "m \<equiv> buildYearMapping cy books ms"
  shows "scrollToYear m = scrollToYear_tbl (dbg_sortedYears m)"
    and "yearToScroll m = yearToScroll_tbl (dbg_yearPositions m)"
    and "minYear m = year (hd (collect_events books ms))"
    and "maxYear m = cy"
    and "(\<exists>y0. nan_table m y0 \<and> set (grid cy books ms) = {y0}) \<or>
          (\<exists>nt. num_table m nt \<and> fst (hd nt) = hd (grid cy books ms) \<and>
                fst (last nt) = last (grid cy books ms) \<and>
                fst ` set nt = set (grid cy books ms) \<and>
                (\<exists>rt tot. 0 < tot \<and> chain (bookRanges books) (milestoneRanges ms) rt \<and>
                   nt = map (apsnd (norm_pos tot)) rt))"
  using build_cases[OF ne, of cy] unfolding m_def grid_def by blast+

lemma single_grid:
  assumes "set (grid cy books ms) = {y0}"
  shows "hd (grid cy books ms) = y0" and "last (grid cy books ms) = y0"
proof -
  have "hd (grid cy books ms) \<in> set (grid cy books ms)"
    and "last (grid cy books ms) \<in> set (grid cy books ms)"
    using grid_nonempty by simp_all
  then show "hd (grid cy books ms) = y0" and "last (grid cy books ms) = y0"
    using assms by simp_all
qed

lemma table_nonempty:
  "collect_events books ms \<noteq> [] \<Longrightarrow> dbg_sortedYears (buildYearMapping cy books ms) \<noteq> []"
  using built(5)[of books ms cy] by (auto simp: nan_table_def num_table_def)

lemma scrollToYear_low:
  assumes ne: "collect_events books ms \<noteq> []" and "p \<le> 0"
  shows "scrollToYear (buildYearMapping cy books ms) (Num p) = Inr (num_of_int (hd (grid cy books ms)))"
  using built(5)[OF ne, of cy]
proof (elim disjE exE conjE)
  fix y0 assume "nan_table (buildYearMapping cy books ms) y0" "set (grid cy books ms) = {y0}"
  then show ?thesis
    by (simp add: built(1)[OF ne] nan_table_def scrollToYear_nan single_grid)
next
  fix nt assume nt: "num_table (buildYearMapping cy books ms) nt"
    and h: "fst (hd nt) = hd (grid cy books ms)"
  from nt have "incr nt" "nt \<noteq> []" "0 \<le> snd (hd nt)"
    and t: "dbg_sortedYears (buildYearMapping cy books ms) = nums nt"
    by (simp_all add: num_table_def)
  from scrollToYear_zero[OF this(1,2) assms(2) this(3)] show ?thesis
    by (simp only: built(1)[OF ne] t h)
qed

lemma scrollToYear_high:
  assumes ne: "collect_events books ms \<noteq> []" and "1 \<le> p"
  shows "scrollToYear (buildYearMapping cy books ms) (Num p) = Inr (num_of_int (last (grid cy books ms)))"
  using built(5)[OF ne, of cy]
proof (elim disjE exE conjE)
  fix y0 assume "nan_table (buildYearMapping cy books ms) y0" "set (grid cy books ms) = {y0}"
  then show ?thesis
    by (simp add: built(1)[OF ne] nan_table_def scrollToYear_nan single_grid)
next
  fix nt assume nt: "num_table (buildYearMapping cy books ms) nt"
    and h: "fst (last nt) = last (grid cy books ms)"
  from nt have "incr nt" "nt \<noteq> []" "snd (last nt) \<le> 1"
    and t: "dbg_sortedYears (buildYearMapping cy books ms) = nums nt"
    by (simp_all add: num_table_def)
  from scrollToYear_one[OF this(1,2) assms(2) this(3)] show ?thesis
    by (simp only: built(1)[OF ne] t h)
qed

lemma yearToScroll_low:
  assumes ne: "collect_events books ms \<noteq> []" and "y \<le> hd (grid cy books ms)"
  shows "yearToScroll (buildYearMapping cy books ms) y
         = Inr (snd (hd (dbg_sortedYears (buildYearMapping cy books ms))))"
  using built(5)[OF ne, of cy]
proof (elim disjE exE conjE)
  fix y0 assume "nan_table (buildYearMapping cy books ms) y0" "set (grid cy books ms) = {y0}"
  then show ?thesis
    by (simp add: built(2)[OF ne] nan_table_def yearToScroll_nan)
next
  fix nt assume nt: "num_table (buildYearMapping cy books ms) nt"
    and h: "fst (hd nt) = hd (grid cy books ms)"
  from nt have i: "incr nt" "nt \<noteq> []"
    and t: "dbg_sortedYears (buildYearMapping cy books ms) = nums nt"
       "dbg_yearPositions (buildYearMapping cy books ms) = nums nt"
    by (simp_all add: num_table_def)
  have "y \<le> fst (hd nt)" using assms(2) h by simp
  from yearToScroll_below[OF i this] i(2) show ?thesis
    by (simp add: built(2)[OF ne] t hd_map)
qed

lemma yearToScroll_high:
  assumes ne: "collect_events books ms \<noteq> []" and "last (grid cy books ms) \<le> y"
  shows "yearToScroll (buildYearMapping cy books ms) y
         = Inr (snd (last (dbg_sortedYears (buildYearMapping cy books ms))))"
  using built(5)[OF ne, of cy]
proof (elim disjE exE conjE)
  fix y0 assume "nan_table (buildYearMapping cy books ms) y0" "set (grid cy books ms) = {y0}"
  then show ?thesis
    by (simp add: built(2)[OF ne] nan_table_def yearToScroll_nan)
next
  fix nt assume nt: "num_table (buildYearMapping cy books ms) nt"
    and h: "fst (last nt) = last (grid cy books ms)"
  from nt have i: "incr nt" "nt \<noteq> []"
    and t: "dbg_sortedYears (buildYearMapping cy books ms) = nums nt"
       "dbg_yearPositions (buildYearMapping cy books ms) = nums nt"
    by (simp_all add: num_table_def)
  have "fst (last nt) \<le> y" using assms(2) h by simp
  from yearToScroll_above[OF i this] i(2) show ?thesis
    by (simp add: built(2)[OF ne] t last_map)
qed

lemma table_keys:
  assumes ne: "collect_events books ms \<noteq> []"
    and "sorted ks" and "distinct ks" and "set ks = set (grid cy books ms)"
  shows "map fst (dbg_sortedYears (buildYearMapping cy books ms)) = ks"
  using built(5)[OF ne, of cy]
proof (elim disjE exE conjE)
  fix y0 assume n: "nan_table (buildYearMapping cy books ms) y0" "set (grid cy books ms) = {y0}"
  have "sorted [y0]" "distinct [y0]" "set [y0] = set ks" using assms(4) n(2) by simp_all
  from sorted_distinct_set_unique[OF this(1,2) assms(2,3) this(3)] n(1)
  show ?thesis by (simp add: nan_table_def)
next
  fix nt assume nt: "num_table (buildYearMapping cy books ms) nt"
    and s: "fst ` set nt = set (grid cy books ms)"
  from nt have i: "incr nt"
    and t: "dbg_sortedYears (buildYearMapping cy books ms) = nums nt"
    by (simp_all add: num_table_def)
  from i have "sorted_wrt (\<lambda>a b. fst a < fst b) nt"
    unfolding incr_def by (rule sorted_wrt_mono_rel[rotated]) simp
  then have "sorted_wrt (<) (map fst nt)" by (simp add: sorted_wrt_map)
  then have "sorted (map fst nt)" "distinct (map fst nt)" by (simp_all add: strict_sorted_iff)
  moreover have "set (map fst nt) = set ks" using s assms(4) by simp
  ultimately have "map fst nt = ks"
    using assms(2,3) by (intro sorted_distinct_set_unique)
  then show ?thesis by (simp add: t comp_def)
qed

subsection \<open>The sample inputs\<close>

text \<open>With the default milestones the list of events is never empty.\<close>

lemma default_milestones_events: "collect_events books MILESTONES \<noteq> []"
proof
  assume "collect_events books MILESTONES = []"
  then have "set (collect_events books MILESTONES) = {}" by simp
  then show False
    by (simp add: collect_events_def MILESTONES_def milestone_events_def)
qed

lemma sample_events:
  "map year (collect_events [sample_book] [sample_milestone]) = [- 199, - 99, - 99, 1]"
  by (simp add: collect_events_def book_events_def getDisplayDate_def milestone_events_def
      sample_book_def sample_milestone_def)

lemma sample_grid: "grid 2026 [sample_book] [sample_milestone] = [- 199, - 99, 1, 2026]"
  by (simp add: grid_def uniqueYears_def set_of_array_def sample_events)

lemma sample_nonempty: "collect_events [sample_book] [sample_milestone] \<noteq> []"
  using sample_events by auto

lemma present_events:
  "map year (collect_events [] [present_milestone]) = [2026, 2026]"
  by (simp add: collect_events_def milestone_events_def present_milestone_def)

lemma future_events:
  "map year (collect_events [] [future_milestone]) = [2030, 2040]"
  by (simp add: collect_events_def milestone_events_def future_milestone_def)

lemma far_events:
  "map year (collect_events [] [far_milestone]) = [20000, 20010]"
  by (simp add: collect_events_def milestone_events_def far_milestone_def)

lemma present_table:
  "dbg_yearPositions (buildYearMapping 2026 [] [present_milestone]) = [(2026, NaN)]"
  by (simp add: buildYearMapping_def collect_events_def milestone_events_def present_milestone_def
      uniqueYears_def set_of_array_def yearPositions_def scrollWeight_def getActiveBooksInfo_def
      getActiveMilestonesInfo_def bookRanges_def milestoneRanges_def milestone_range_def
      round_half_up_def normalizedPositions_def normalized_def inf_of_sign_def Let_def)

subsection \<open>Between two grid years\<close>

lemma interp_pos_value:
  assumes "p1 < p2" and "y1 < y" and "y < y2"
  shows "\<exists>r. js_add (Num p1) (js_mul (js_div (num_of_int (y - y1)) (num_of_int (y2 - y1)))
                  (js_sub (Num p2) (Num p1))) = Num r \<and> p1 < r \<and> r < p2"
proof -
  let ?t = "of_int (y - y1) / of_int (y2 - y1) :: real"
  have d: "0 < (of_int (y2 - y1) :: real)" using assms(2,3) by simp
  have t0: "0 < ?t" using assms(2) d by simp
  have t1: "?t < 1" using assms(3) d by simp
  have w: "0 < p2 - p1" using assms(1) by simp
  have "0 < ?t * (p2 - p1)" using t0 w by (rule mult_pos_pos)
  then have lo: "p1 < p1 + ?t * (p2 - p1)" by linarith
  have "?t * (p2 - p1) < 1 * (p2 - p1)" using t1 w by (rule mult_strict_right_mono)
  then have "?t * (p2 - p1) < p2 - p1" by simp
  then have hi: "p1 + ?t * (p2 - p1) < p2" by linarith
  have "js_add (Num p1) (js_mul (js_div (num_of_int (y - y1)) (num_of_int (y2 - y1)))
                  (js_sub (Num p2) (Num p1))) = Num (p1 + ?t * (p2 - p1))"
    using assms(2,3) by (simp add: js_sub_def)
  with lo hi show ?thesis by blast
qed

lemma interpolate_pos_inside:
  "nt \<noteq> [] \<Longrightarrow> incr nt \<Longrightarrow> y \<notin> fst ` set nt \<Longrightarrow> fst (hd nt) < y \<Longrightarrow> y < fst (last nt) \<Longrightarrow>
   \<exists>r. interpolate_pos (nums nt) y = Some (Num r) \<and> snd (hd nt) < r \<and> r < snd (last nt)"
proof (induction nt rule: induct_list012)
  case 1
  then show ?case by simp
next
  case (2 e)
  then show ?case by simp
next
  case (3 e1 e2 rest)
  obtain y1 p1 where e1: "e1 = (y1, p1)" by (cases e1)
  obtain y2 p2 where e2: "e2 = (y2, p2)" by (cases e2)
  from "3.prems"(2) have lt: "y1 < y2" "p1 < p2" and inc: "incr (e2 # rest)"
    by (auto simp: incr_Cons e1 e2)
  have p2_last: "p2 \<le> snd (last (e2 # rest))"
    using incr_snd_le_last[OF inc, of e2] by (simp add: e2)
  from "3.prems"(3) have ne: "y \<noteq> y1" "y \<noteq> y2" by (auto simp: e1 e2)
  from "3.prems"(4) have gt1: "y1 < y" by (simp add: e1)
  show ?case
  proof (cases "y < y2")
    case True
    from interp_pos_value[OF lt(2) gt1 True]
    obtain r where r: "js_add (Num p1) (js_mul (js_div (num_of_int (y - y1)) (num_of_int (y2 - y1)))
                  (js_sub (Num p2) (Num p1))) = Num r" "p1 < r" "r < p2"
      by blast
    have "interpolate_pos (nums (e1 # e2 # rest)) y = Some (Num r)"
      using True gt1 r(1) by (simp add: e1 e2)
    then show ?thesis using r(2,3) p2_last by (auto simp: e1)
  next
    case False
    with ne have gt2: "y2 < y" by simp
    then have step: "interpolate_pos (nums (e1 # e2 # rest)) y = interpolate_pos (nums (e2 # rest)) y"
      by (simp add: e1 e2)
    have "y \<notin> fst ` set (e2 # rest)" using "3.prems"(3) by auto
    moreover have "fst (hd (e2 # rest)) < y" using gt2 by (simp add: e2)
    moreover have "y < fst (last (e2 # rest))" using "3.prems"(5) by simp
    ultimately obtain r where
      "interpolate_pos (nums (e2 # rest)) y = Some (Num r)" "snd (hd (e2 # rest)) < r"
      "r < snd (last (e2 # rest))"
      using "3.IH"(2)[OF _ inc] by blast
    then show ?thesis using step lt(2) by (auto simp: e1 e2)
  qed
qed

lemma yearToScroll_inside:
  assumes "nt \<noteq> []" and "incr nt" and "y \<notin> fst ` set nt" and "fst (hd nt) < y"
    and "y < fst (last nt)"
  shows "\<exists>r. yearToScroll_tbl (nums nt) y = Inr (Num r) \<and> snd (hd nt) < r \<and> r < snd (last nt)"
proof -
  from assms(3) have "y \<notin> fst ` set (nums nt)" unfolding fst_set_nums .
  then have none: "map_get (nums nt) y = None" by (rule map_get_None)
  from assms(1) obtain e es where nt: "nt = e # es" by (cases nt) auto
  have lastn: "last (nums nt) = apsnd Num (last nt)" using nt by (simp add: last_map)
  from interpolate_pos_inside[OF assms]
  obtain r where r: "interpolate_pos (nums nt) y = Some (Num r)" "snd (hd nt) < r"
    "r < snd (last nt)"
    by blast
  have "yearToScroll_tbl (nums nt) y = Inr (Num r)"
    using assms(4,5) lastn r(1)
    unfolding yearToScroll_tbl_def none sort_by_year_nums[OF assms(2)] Let_def
    by (simp add: nt)
  with r(2,3) show ?thesis by blast
qed

lemma yearToScroll_between:
  assumes ne: "collect_events books ms \<noteq> []"
    and "y \<notin> set (grid cy books ms)"
    and "hd (grid cy books ms) < y" and "y < last (grid cy books ms)"
  shows "yearToScroll (buildYearMapping cy books ms) y
           \<noteq> Inr (snd (hd (dbg_sortedYears (buildYearMapping cy books ms))))"
    and "yearToScroll (buildYearMapping cy books ms) y
           \<noteq> Inr (snd (last (dbg_sortedYears (buildYearMapping cy books ms))))"
proof -
  have "yearToScroll (buildYearMapping cy books ms) y
           \<noteq> Inr (snd (hd (dbg_sortedYears (buildYearMapping cy books ms)))) \<and>
        yearToScroll (buildYearMapping cy books ms) y
           \<noteq> Inr (snd (last (dbg_sortedYears (buildYearMapping cy books ms))))"
    using built(5)[OF ne, of cy]
  proof (elim disjE exE conjE)
    fix y0 assume "set (grid cy books ms) = {y0}"
    from single_grid[OF this] assms(3,4) show ?thesis by simp
  next
    fix nt assume nt: "num_table (buildYearMapping cy books ms) nt"
      and h: "fst (hd nt) = hd (grid cy books ms)" "fst (last nt) = last (grid cy books ms)"
        "fst ` set nt = set (grid cy books ms)"
    from nt have i: "incr nt" "nt \<noteq> []"
      and t: "dbg_sortedYears (buildYearMapping cy books ms) = nums nt"
         "dbg_yearPositions (buildYearMapping cy books ms) = nums nt"
      by (simp_all add: num_table_def)
    from yearToScroll_inside[OF i(2,1), of y] assms(2,3,4) h
    obtain r where "yearToScroll_tbl (nums nt) y = Inr (Num r)" "snd (hd nt) < r"
      "r < snd (last nt)"
      by auto
    then show ?thesis
      using i(2) by (simp add: built(2)[OF ne] t hd_map last_map)
  qed
  then show "yearToScroll (buildYearMapping cy books ms) y
           \<noteq> Inr (snd (hd (dbg_sortedYears (buildYearMapping cy books ms))))"
    and "yearToScroll (buildYearMapping cy books ms) y
           \<noteq> Inr (snd (last (dbg_sortedYears (buildYearMapping cy books ms))))"
    by simp_all
qed

subsection \<open>Spans of segments\<close>

lemma segment_weight_dense:
  assumes "filter (\<lambda>r. range_start r \<le> round_half_up (of_int (p + y) / 2) \<and>
                        round_half_up (of_int (p + y) / 2) \<le> range_end r) br \<noteq> []"
    and "p \<noteq> y"
  shows "sqrt \<bar>of_int (y - p)\<bar> < segment_weight br mr p y"
proof -
  let ?bs = "filter (\<lambda>r. range_start r \<le> round_half_up (of_int (p + y) / 2) \<and>
                        round_half_up (of_int (p + y) / 2) \<le> range_end r) br"
  let ?d = "Min (set (map (\<lambda>r. range_end r - range_start r) ?bs))"
  have s: "0 < sqrt \<bar>of_int (y - p) :: real\<bar>" using assms(2) by simp
  have "1 * 1 < (4 + 1.5 * of_nat (length ?bs)) * durationBonus ?d"
    using durationBonus_ge1[of ?d] by (intro mult_less_le_imp_less) simp_all
  then have "sqrt \<bar>of_int (y - p)\<bar> * 1 <
      sqrt \<bar>of_int (y - p)\<bar> * ((4 + 1.5 * of_nat (length ?bs)) * durationBonus ?d)"
    using s by (intro mult_strict_left_mono) simp_all
  then show ?thesis
    using assms(1) unfolding segment_weight_def Let_def by (simp del: of_int_diff of_int_add)
qed

lemma segment_weight_bare:
  assumes "filter (\<lambda>r. range_start r \<le> round_half_up (of_int (p + y) / 2) \<and>
                        round_half_up (of_int (p + y) / 2) \<le> range_end r) br = []"
    and "filter (\<lambda>r. range_start r \<le> round_half_up (of_int (p + y) / 2) \<and>
                        round_half_up (of_int (p + y) / 2) \<le> range_end r) mr = []"
  shows "segment_weight br mr p y = sqrt \<bar>of_int (y - p)\<bar>"
  using assms unfolding segment_weight_def Let_def by (simp del: of_int_diff of_int_add)

lemma norm_pos_diff: "tot \<noteq> 0 \<Longrightarrow> norm_pos tot b - norm_pos tot a = (b - a) / tot * usableRange"
  by (simp add: norm_pos_def diff_divide_distrib left_diff_distrib)

lemma segment_spans:
  assumes ne: "collect_events books ms \<noteq> []"
  shows "\<exists>tot. 0 < tot \<and>
     (\<forall>i. Suc i < length (dbg_sortedYears (buildYearMapping cy books ms)) \<longrightarrow>
        fst (dbg_sortedYears (buildYearMapping cy books ms) ! i)
          < fst (dbg_sortedYears (buildYearMapping cy books ms) ! Suc i) \<and>
        segment_span (buildYearMapping cy books ms) i =
          Num (segment_weight (bookRanges books) (milestoneRanges ms)
                 (fst (dbg_sortedYears (buildYearMapping cy books ms) ! i))
                 (fst (dbg_sortedYears (buildYearMapping cy books ms) ! Suc i)) / tot * usableRange))"
  using built(5)[OF ne, of cy]
proof (elim disjE exE conjE)
  fix y0 assume "nan_table (buildYearMapping cy books ms) y0"
  then have "length (dbg_sortedYears (buildYearMapping cy books ms)) = 1"
    by (simp add: nan_table_def)
  then show ?thesis by (intro exI[of _ 1]) simp
next
  fix nt rt tot
  assume nt: "num_table (buildYearMapping cy books ms) nt"
    and tot: "(0::real) < tot"
    and ch: "chain (bookRanges books) (milestoneRanges ms) rt"
    and ntrt: "nt = map (apsnd (norm_pos tot)) rt"
  from nt have t: "dbg_sortedYears (buildYearMapping cy books ms) = nums nt"
    by (simp add: num_table_def)
  have "fst (nums nt ! i) < fst (nums nt ! Suc i) \<and>
        js_sub (snd (nums nt ! Suc i)) (snd (nums nt ! i)) =
          Num (segment_weight (bookRanges books) (milestoneRanges ms)
                 (fst (nums nt ! i)) (fst (nums nt ! Suc i)) / tot * usableRange)"
    if i: "Suc i < length (nums nt)" for i
  proof -
    from i have l: "Suc i < length rt" "i < length rt" by (simp_all add: ntrt)
    from successively_nth[OF ch[unfolded chain_def] l(1)]
    have c: "fst (rt ! i) < fst (rt ! Suc i)"
      "snd (rt ! Suc i) - snd (rt ! i)
         = segment_weight (bookRanges books) (milestoneRanges ms) (fst (rt ! i)) (fst (rt ! Suc i))"
      by simp_all
    have n: "nums nt ! i = (fst (rt ! i), Num (norm_pos tot (snd (rt ! i))))"
      "nums nt ! Suc i = (fst (rt ! Suc i), Num (norm_pos tot (snd (rt ! Suc i))))"
      using l by (simp_all add: ntrt apsnd_def map_prod_def case_prod_beta)
    have "js_sub (snd (nums nt ! Suc i)) (snd (nums nt ! i))
        = Num (norm_pos tot (snd (rt ! Suc i)) - norm_pos tot (snd (rt ! i)))"
      unfolding n by (simp add: js_sub_def)
    also have "\<dots> = Num ((snd (rt ! Suc i) - snd (rt ! i)) / tot * usableRange)"
      using tot by (simp add: norm_pos_diff)
    finally show ?thesis using c unfolding n by simp
  qed
  then show ?thesis
    using tot unfolding segment_span_def t by (intro exI[of _ tot]) blast
qed

section \<open>The properties of the year mapping\<close>

text \<open>
  C1. For a mapping built from at least one event, the position table has exactly the grid
  years as its keys and is strictly increasing: along the table the year and the position
  both grow strictly. Hence \<open>yearToScroll\<close> is monotone on the grid: for grid years
  \<open>y1 < y2\<close> it returns positions \<open>p1 \<le> p2\<close>.
\<close>

theorem yearToScroll_monotone:
  assumes "collect_events books ms \<noteq> []"
  shows "fst ` set (dbg_yearPositions (buildYearMapping cy books ms)) = set (grid cy books ms) \<and>
         sorted_wrt (\<lambda>a b. fst a < fst b \<and> js_lt (snd a) (snd b))
           (dbg_yearPositions (buildYearMapping cy books ms)) \<and>
         (\<forall>y1 \<in> set (grid cy books ms). \<forall>y2 \<in> set (grid cy books ms). y1 < y2 \<longrightarrow>
            (\<exists>p1 p2. yearToScroll (buildYearMapping cy books ms) y1 = Inr p1 \<and>
                     yearToScroll (buildYearMapping cy books ms) y2 = Inr p2 \<and>
                     js_le p1 p2))"
  using built(5)[OF assms, of cy]
proof (elim disjE exE conjE)
  fix y0 assume "nan_table (buildYearMapping cy books ms) y0" "set (grid cy books ms) = {y0}"
  then show ?thesis by (simp add: nan_table_def)
next
  fix nt assume nt: "num_table (buildYearMapping cy books ms) nt"
    and keys: "fst ` set nt = set (grid cy books ms)"
  from nt have i: "incr nt"
    and t: "dbg_yearPositions (buildYearMapping cy books ms) = nums nt"
    by (simp_all add: num_table_def)
  have k: "fst ` set (nums nt) = set (grid cy books ms)"
    using keys by (simp only: fst_set_nums)
  from i have "sorted_wrt (\<lambda>a b. fst (apsnd Num a) < fst (apsnd Num b) \<and>
                              js_lt (snd (apsnd Num a)) (snd (apsnd Num b))) nt"
    unfolding incr_def by (rule sorted_wrt_mono_rel[rotated]) simp
  then have s: "sorted_wrt (\<lambda>a b. fst a < fst b \<and> js_lt (snd a) (snd b)) (nums nt)"
    by (simp only: sorted_wrt_map)
  have "\<exists>p1 p2. yearToScroll_tbl (nums nt) y1 = Inr p1 \<and>
                yearToScroll_tbl (nums nt) y2 = Inr p2 \<and> js_le p1 p2"
    if "y1 \<in> set (grid cy books ms)" "y2 \<in> set (grid cy books ms)" "y1 < y2" for y1 y2
  proof -
    from that(1,2) keys obtain p1 p2 where m: "(y1, p1) \<in> set nt" "(y2, p2) \<in> set nt"
      by force
    from incr_mono[OF i m] that(3) have "p1 < p2" by simp
    with yearToScroll_exact[OF i m(1)] yearToScroll_exact[OF i m(2)] show ?thesis by simp
  qed
  with k s show ?thesis
    unfolding built(2)[OF assms] t by blast
qed

theorem yearToScroll_monotone_witness:
  "collect_events [sample_book] [sample_milestone] \<noteq> [] \<and>
   - 199 \<in> set (grid 2026 [sample_book] [sample_milestone]) \<and>
   1 \<in> set (grid 2026 [sample_book] [sample_milestone]) \<and>
   (\<exists>p1 p2. yearToScroll (buildYearMapping 2026 [sample_book] [sample_milestone]) (- 199) = Inr p1 \<and>
            yearToScroll (buildYearMapping 2026 [sample_book] [sample_milestone]) 1 = Inr p2 \<and>
            js_le p1 p2)"
proof -
  have g: "- 199 \<in> set (grid 2026 [sample_book] [sample_milestone])"
    "1 \<in> set (grid 2026 [sample_book] [sample_milestone])"
    by (simp_all add: sample_grid)
  from yearToScroll_monotone[OF sample_nonempty, of 2026] g
  have "\<exists>p1 p2. yearToScroll (buildYearMapping 2026 [sample_book] [sample_milestone]) (- 199) = Inr p1 \<and>
            yearToScroll (buildYearMapping 2026 [sample_book] [sample_milestone]) 1 = Inr p2 \<and>
            js_le p1 p2"
    by force
  with sample_nonempty g show ?thesis by blast
qed

text \<open>
  C2. For a mapping built from at least one event and a grid year \<open>y\<close>, \<open>yearToScroll(y)\<close>
  returns a position, and \<open>scrollToYear\<close> of that position returns a year that differs from
  \<open>y\<close> by at most 1.
\<close>

theorem round_trip_stability:
  assumes "collect_events books ms \<noteq> []" and "y \<in> set (grid cy books ms)"
  shows "\<exists>p r. yearToScroll (buildYearMapping cy books ms) y = Inr p \<and>
               scrollToYear (buildYearMapping cy books ms) p = Inr (Num r) \<and>
               \<bar>r - of_int y\<bar> \<le> 1"
  using built(5)[OF assms(1), of cy]
proof (elim disjE exE conjE)
  fix y0 assume n: "nan_table (buildYearMapping cy books ms) y0" "set (grid cy books ms) = {y0}"
  with assms(2) have "y = y0" by simp
  with n(1) show ?thesis
    by (simp add: built(1,2)[OF assms(1)] nan_table_def yearToScroll_nan scrollToYear_nan)
next
  fix nt assume nt: "num_table (buildYearMapping cy books ms) nt"
    and keys: "fst ` set nt = set (grid cy books ms)"
  from nt have i: "incr nt"
    and t: "dbg_yearPositions (buildYearMapping cy books ms) = nums nt"
       "dbg_sortedYears (buildYearMapping cy books ms) = nums nt"
    by (simp_all add: num_table_def)
  from assms(2) keys obtain p where m: "(y, p) \<in> set nt" by force
  from scrollToYear_exact[OF i m num_table_bounds[OF nt m]] yearToScroll_exact[OF i m]
  show ?thesis
    unfolding built(1,2)[OF assms(1)] t by simp
qed

theorem round_trip_stability_witness:
  "collect_events [sample_book] [sample_milestone] \<noteq> [] \<and>
   - 99 \<in> set (grid 2026 [sample_book] [sample_milestone]) \<and>
   (\<exists>p r. yearToScroll (buildYearMapping 2026 [sample_book] [sample_milestone]) (- 99) = Inr p \<and>
          scrollToYear (buildYearMapping 2026 [sample_book] [sample_milestone]) p = Inr (Num r) \<and>
          \<bar>r - of_int (- 99)\<bar> \<le> 1)"
proof -
  have g: "- 99 \<in> set (grid 2026 [sample_book] [sample_milestone])"
    by (simp add: sample_grid)
  from round_trip_stability[OF sample_nonempty g] sample_nonempty g show ?thesis by blast
qed

text \<open>
  C3, as amended. For a mapping built from at least one event, none of them after the
  current year: \<open>scrollToYear(0)\<close> is \<open>minYear\<close>, \<open>scrollToYear(1)\<close> is \<open>maxYear\<close>, and
  \<open>yearToScroll(minYear)\<close> and \<open>yearToScroll(maxYear)\<close> are the first and the last position
  of the table (both \<open>NaN\<close> when the current year is the only grid year).
\<close>

theorem boundary_exactness:
  assumes "collect_events books ms \<noteq> []"
    and "\<forall>e \<in> set (collect_events books ms). year e \<le> cy"
  shows "dbg_sortedYears (buildYearMapping cy books ms) \<noteq> [] \<and>
         scrollToYear (buildYearMapping cy books ms) (Num 0)
           = Inr (num_of_int (minYear (buildYearMapping cy books ms))) \<and>
         scrollToYear (buildYearMapping cy books ms) (Num 1)
           = Inr (num_of_int (maxYear (buildYearMapping cy books ms))) \<and>
         yearToScroll (buildYearMapping cy books ms) (minYear (buildYearMapping cy books ms))
           = Inr (snd (hd (dbg_sortedYears (buildYearMapping cy books ms)))) \<and>
         yearToScroll (buildYearMapping cy books ms) (maxYear (buildYearMapping cy books ms))
           = Inr (snd (last (dbg_sortedYears (buildYearMapping cy books ms))))"
proof -
  let ?evs = "collect_events books ms"
  let ?first = "year (hd ?evs)"
  have "?first \<in> set (grid cy books ms)"
    using minYear_least(1)[OF assms(1)] by (simp add: set_grid)
  moreover have "\<forall>y \<in> set (grid cy books ms). ?first \<le> y"
    using minYear_least[OF assms(1)] assms(2) by (auto simp: set_grid)
  ultimately have h: "hd (grid cy books ms) = ?first"
    by (intro sorted_hd_least[OF sorted_grid])
  have "cy \<in> set (grid cy books ms)" by (simp add: set_grid)
  moreover have "\<forall>y \<in> set (grid cy books ms). y \<le> cy"
    using assms(2) by (auto simp: set_grid)
  ultimately have l: "last (grid cy books ms) = cy"
    by (intro sorted_last_greatest[OF sorted_grid])
  show ?thesis
    using table_nonempty[OF assms(1), of cy]
      scrollToYear_low[OF assms(1), of 0 cy] scrollToYear_high[OF assms(1), of 1 cy]
      yearToScroll_low[OF assms(1), of ?first cy] yearToScroll_high[OF assms(1), of cy cy]
    by (simp add: built(3,4)[OF assms(1)] h l)
qed

theorem boundary_exactness_witness:
  "collect_events [sample_book] [sample_milestone] \<noteq> [] \<and>
   list_all (\<lambda>e. year e \<le> 2026) (collect_events [sample_book] [sample_milestone]) \<and>
   minYear (buildYearMapping 2026 [sample_book] [sample_milestone]) = - 199 \<and>
   maxYear (buildYearMapping 2026 [sample_book] [sample_milestone]) = 2026 \<and>
   scrollToYear (buildYearMapping 2026 [sample_book] [sample_milestone]) (Num 0) = Inr (Num (- 199)) \<and>
   scrollToYear (buildYearMapping 2026 [sample_book] [sample_milestone]) (Num 1) = Inr (Num 2026)"
proof -
  have y: "\<forall>y \<in> set (map year (collect_events [sample_book] [sample_milestone])). y \<le> 2026"
    unfolding sample_events by simp
  then have a: "\<forall>e \<in> set (collect_events [sample_book] [sample_milestone]). year e \<le> 2026"
    by simp
  then have a': "list_all (\<lambda>e. year e \<le> 2026) (collect_events [sample_book] [sample_milestone])"
    by (simp add: list_all_iff)
  have "year (hd (collect_events [sample_book] [sample_milestone]))
      = hd (map year (collect_events [sample_book] [sample_milestone]))"
    using sample_nonempty by (simp add: hd_map)
  then have mn: "minYear (buildYearMapping 2026 [sample_book] [sample_milestone]) = - 199"
    by (simp add: built(3)[OF sample_nonempty] sample_events)
  have mx: "maxYear (buildYearMapping 2026 [sample_book] [sample_milestone]) = 2026"
    by (simp add: built(4)[OF sample_nonempty])
  from boundary_exactness[OF sample_nonempty a] sample_nonempty a' mn mx
  show ?thesis by simp
qed

text \<open>
  The claim C3 as it was stated fails when an event lies after the current year: a milestone
  displayed from 2030 to 2040, built in 2026, gives \<open>maxYear = 2026\<close>, and \<open>scrollToYear(1)\<close>
  is the last grid year 2040.
\<close>

theorem boundary_exactness_counterexample:
  "maxYear (buildYearMapping 2026 [] [future_milestone]) = 2026 \<and>
   scrollToYear (buildYearMapping 2026 [] [future_milestone]) (Num 1) = Inr (Num 2040) \<and>
   scrollToYear (buildYearMapping 2026 [] [future_milestone]) (Num 1)
     \<noteq> Inr (num_of_int (maxYear (buildYearMapping 2026 [] [future_milestone])))"
proof -
  have e: "collect_events [] [future_milestone] \<noteq> []"
    using future_events by auto
  have g: "grid 2026 [] [future_milestone] = [2026, 2030, 2040]"
    by (simp add: grid_def uniqueYears_def set_of_array_def future_events)
  show ?thesis
    using scrollToYear_high[OF e, of 1 2026]
    by (simp add: built(4)[OF e] g)
qed

text \<open>
  C4, as amended. For a mapping built from at least one event, none of them more than 10000
  years after the current year, queries outside the domain are clamped and do not throw:
  \<open>scrollToYear(-1)\<close> and \<open>scrollToYear(2)\<close> are the first and the last grid year, and
  \<open>yearToScroll(minYear - 10000)\<close> and \<open>yearToScroll(maxYear + 10000)\<close> are the first and the
  last position of the table.
\<close>

theorem out_of_domain_clamped:
  assumes "collect_events books ms \<noteq> []"
    and "\<forall>e \<in> set (collect_events books ms). year e \<le> cy + 10000"
  shows "dbg_sortedYears (buildYearMapping cy books ms) \<noteq> [] \<and>
         scrollToYear (buildYearMapping cy books ms) (Num (- 1))
           = Inr (num_of_int (hd (grid cy books ms))) \<and>
         scrollToYear (buildYearMapping cy books ms) (Num 2)
           = Inr (num_of_int (last (grid cy books ms))) \<and>
         yearToScroll (buildYearMapping cy books ms)
             (minYear (buildYearMapping cy books ms) - 10000)
           = Inr (snd (hd (dbg_sortedYears (buildYearMapping cy books ms)))) \<and>
         yearToScroll (buildYearMapping cy books ms)
             (maxYear (buildYearMapping cy books ms) + 10000)
           = Inr (snd (last (dbg_sortedYears (buildYearMapping cy books ms))))"
proof -
  let ?evs = "collect_events books ms"
  let ?first = "year (hd ?evs)"
  have f: "?first \<le> cy + 10000"
    using assms by simp
  have "hd (grid cy books ms) \<in> set (grid cy books ms)"
    using grid_nonempty by simp
  then have lo: "?first - 10000 \<le> hd (grid cy books ms)"
    using minYear_least(2)[OF assms(1)] f by (auto simp: set_grid)
  have "last (grid cy books ms) \<in> set (grid cy books ms)"
    using grid_nonempty by simp
  then have hi: "last (grid cy books ms) \<le> cy + 10000"
    using assms(2) by (auto simp: set_grid)
  show ?thesis
    using table_nonempty[OF assms(1), of cy]
      scrollToYear_low[OF assms(1), of "- 1" cy] scrollToYear_high[OF assms(1), of 2 cy]
      yearToScroll_low[OF assms(1) lo] yearToScroll_high[OF assms(1) hi]
    by (simp add: built(3,4)[OF assms(1)])
qed

theorem out_of_domain_clamped_witness:
  "collect_events [sample_book] [sample_milestone] \<noteq> [] \<and>
   list_all (\<lambda>e. year e \<le> 2026 + 10000) (collect_events [sample_book] [sample_milestone]) \<and>
   scrollToYear (buildYearMapping 2026 [sample_book] [sample_milestone]) (Num (- 1)) = Inr (Num (- 199)) \<and>
   scrollToYear (buildYearMapping 2026 [sample_book] [sample_milestone]) (Num 2) = Inr (Num 2026) \<and>
   yearToScroll (buildYearMapping 2026 [sample_book] [sample_milestone])
       (minYear (buildYearMapping 2026 [sample_book] [sample_milestone]) - 10000)
     = Inr (snd (hd (dbg_sortedYears (buildYearMapping 2026 [sample_book] [sample_milestone]))))"
proof -
  have y: "\<forall>y \<in> set (map year (collect_events [sample_book] [sample_milestone])). y \<le> 2026 + 10000"
    unfolding sample_events by simp
  then have a: "\<forall>e \<in> set (collect_events [sample_book] [sample_milestone]). year e \<le> 2026 + 10000"
    by simp
  then have a': "list_all (\<lambda>e. year e \<le> 2026 + 10000)
      (collect_events [sample_book] [sample_milestone])"
    by (simp add: list_all_iff)
  from out_of_domain_clamped[OF sample_nonempty a] sample_nonempty a'
  show ?thesis by (simp add: sample_grid)
qed

text \<open>
  The claim C4 as it was stated fails in two places. The fallback for an empty event list
  does not clamp: \<open>scrollToYear(-1)\<close> is \<open>-8100\<close>, below its \<open>minYear = -4000\<close>. And with a
  milestone displayed from 20000 to 20010, built in 2026, \<open>maxYear + 10000 = 12026\<close> lies
  inside the grid, where \<open>yearToScroll\<close> interpolates and does not return the last position.
\<close>

theorem out_of_domain_clamped_counterexample:
  "minYear (buildYearMapping 2026 [] []) = - 4000 \<and>
   scrollToYear (buildYearMapping 2026 [] []) (Num (- 1)) = Inr (Num (- 8100)) \<and>
   collect_events [] [far_milestone] \<noteq> [] \<and>
   maxYear (buildYearMapping 2026 [] [far_milestone]) + 10000 = 12026 \<and>
   yearToScroll (buildYearMapping 2026 [] [far_milestone]) 12026
     \<noteq> Inr (snd (last (dbg_sortedYears (buildYearMapping 2026 [] [far_milestone]))))"
proof -
  have m: "buildYearMapping 2026 [] [] = identity_mapping"
    by (simp add: buildYearMapping_def collect_events_def)
  have r: "round_half_up (- 8100) = - 8100"
    using round_half_up_of_int[of "- 8100"] by simp
  have a: "minYear (buildYearMapping 2026 [] []) = - 4000"
    "scrollToYear (buildYearMapping 2026 [] []) (Num (- 1)) = Inr (Num (- 8100))"
    unfolding m by (simp_all add: identity_mapping_def r)
  have e: "collect_events [] [far_milestone] \<noteq> []"
    using far_events by auto
  have g: "grid 2026 [] [far_milestone] = [2026, 20000, 20010]"
    by (simp add: grid_def uniqueYears_def set_of_array_def far_events)
  have "yearToScroll (buildYearMapping 2026 [] [far_milestone]) 12026
     \<noteq> Inr (snd (last (dbg_sortedYears (buildYearMapping 2026 [] [far_milestone]))))"
    by (rule yearToScroll_between(2)[OF e]) (simp_all add: g)
  with a e show ?thesis by (simp add: built(4)[OF e])
qed

text \<open>
  C5. When \<open>buildYearMapping\<close> is called with no dated book and no milestone, the list of
  events is empty and it returns the fixed linear fallback: \<open>minYear = -4000\<close>,
  \<open>maxYear = 100\<close>, \<open>scrollToYear(s) = round(-4000 + 4100 s)\<close>,
  \<open>yearToScroll(y) = (y + 4000) / 4100\<close>; in particular \<open>scrollToYear(0.5)\<close> is the middle
  of the default range, the year \<open>-1950\<close>.
\<close>

theorem empty_dataset_fallback:
  assumes "\<forall>b \<in> set books. date_range (getDisplayDate b) = None"
  shows "buildYearMapping cy books [] = identity_mapping \<and>
         minYear (buildYearMapping cy books []) = - 4000 \<and>
         maxYear (buildYearMapping cy books []) = 100 \<and>
         (\<forall>s. scrollToYear (buildYearMapping cy books []) (Num s)
                = Inr (num_of_int (round_half_up (- 4000 + s * 4100)))) \<and>
         (\<forall>y. yearToScroll (buildYearMapping cy books []) y
                = Inr (Num ((of_int y + 4000) / 4100))) \<and>
         scrollToYear (buildYearMapping cy books []) (Num 0.5) = Inr (Num (- 1950))"
proof -
  have c: "concat (map book_events books) = []"
    using assms by (induction books) (auto simp: book_events_def)
  have "collect_events books [] = []"
    unfolding collect_events_def c by simp
  then have m: "buildYearMapping cy books [] = identity_mapping"
    by (simp add: buildYearMapping_def)
  have "round_half_up (- 4000 + 0.5 * 4100) = - 1950"
    unfolding round_half_up_def by linarith
  then show ?thesis
    unfolding m by (simp add: identity_mapping_def)
qed

theorem empty_dataset_fallback_witness:
  "date_range (getDisplayDate undated_book) = None \<and>
   minYear (buildYearMapping 2026 [undated_book] []) = - 4000 \<and>
   maxYear (buildYearMapping 2026 [undated_book] []) = 100 \<and>
   scrollToYear (buildYearMapping 2026 [undated_book] []) (Num 0.5) = Inr (Num (- 1950))"
proof -
  have h0: "date_range (getDisplayDate undated_book) = None"
    by (simp add: undated_book_def getDisplayDate_def)
  then have h: "\<forall>b \<in> set [undated_book]. date_range (getDisplayDate b) = None"
    by simp
  from empty_dataset_fallback[OF h, of 2026] h0 show ?thesis
    by (elim conjE) (intro conjI, assumption+)
qed

text \<open>
  C6. For a segment from \<open>prevYear\<close> to \<open>y\<close> whose midpoint year lies in at least one book
  interval (\<open>start \<le> midpoint \<le> end\<close>), the weight is the square root of the gap, times
  the density multiplier \<open>4 + 1.5 \<times> activeCount\<close>, and times the duration bonus
  \<open>max(1, 4 - minDuration / 33)\<close> when the shortest active book lasts less than 100 years.
\<close>

theorem density_weight:
  fixes branges mranges :: "year_range list" and prevYear y :: int
  defines "mid \<equiv> round_half_up (of_int (prevYear + y) / 2)"
  defines "active \<equiv> filter (\<lambda>r. range_start r \<le> mid \<and> mid \<le> range_end r) branges"
  defines "shortest \<equiv> Min ((\<lambda>r. range_end r - range_start r) ` set active)"
  assumes "active \<noteq> []"
  shows "scrollWeight branges mranges prevYear y =
         Num (sqrt \<bar>of_int (y - prevYear)\<bar> * (4 + 1.5 * of_nat (length active)) *
              (if shortest < 100 then max 1 (4 - of_int shortest / 33) else 1))"
  using assms(4)
  unfolding scrollWeight_eq segment_weight_def Let_def durationBonus_def
    shortest_def active_def mid_def
  by (simp del: of_int_diff of_int_add)

theorem density_weight_witness:
  "filter (\<lambda>r. range_start r \<le> round_half_up (of_int (- 199 + (- 99)) / 2) \<and>
                round_half_up (of_int (- 199 + (- 99)) / 2) \<le> range_end r)
     (bookRanges [sample_book]) \<noteq> [] \<and>
   scrollWeight (bookRanges [sample_book]) (milestoneRanges [sample_milestone]) (- 199) (- 99)
     = Num 55"
proof -
  have r: "round_half_up (of_int (- 199 + (- 99)) / 2) = - 149"
    by (simp add: round_half_up_def)
  have b: "bookRanges [sample_book] = [\<lparr>range_start = - 199, range_end = - 99\<rparr>]"
    by (simp add: bookRanges_def book_range_def getDisplayDate_def sample_book_def)
  have h: "filter (\<lambda>r. range_start r \<le> round_half_up (of_int (- 199 + (- 99)) / 2) \<and>
                round_half_up (of_int (- 199 + (- 99)) / 2) \<le> range_end r)
     (bookRanges [sample_book]) \<noteq> []"
    unfolding r b by simp
  from density_weight[OF h, where mranges = "milestoneRanges [sample_milestone]"] h show ?thesis
    unfolding r b by simp
qed

text \<open>
  C7. The milestone multiplier \<open>40 + 20 \<times> activeMilestoneCount\<close> is applied to the weight
  of a segment only when no book interval is active at its midpoint. Where a book is active
  there, the weight does not depend on the milestones at all: it is the weight computed with
  no milestone. Where no book is active, the weight is the square root of the gap times the
  milestone multiplier if a milestone display range is active, and the bare square root
  otherwise.
\<close>

theorem milestone_book_exclusive:
  fixes branges mranges :: "year_range list" and prevYear y :: int
  defines "mid \<equiv> round_half_up (of_int (prevYear + y) / 2)"
  defines "books \<equiv> filter (\<lambda>r. range_start r \<le> mid \<and> mid \<le> range_end r) branges"
  defines "stones \<equiv> filter (\<lambda>r. range_start r \<le> mid \<and> mid \<le> range_end r) mranges"
  shows "(books \<noteq> [] \<longrightarrow>
            scrollWeight branges mranges prevYear y = scrollWeight branges [] prevYear y \<and>
            scrollWeight branges mranges prevYear y =
              Num (sqrt \<bar>of_int (y - prevYear)\<bar> * (4 + 1.5 * of_nat (length books)) *
                   durationBonus (Min ((\<lambda>r. range_end r - range_start r) ` set books)))) \<and>
         (books = [] \<and> stones \<noteq> [] \<longrightarrow>
            scrollWeight branges mranges prevYear y =
              Num (sqrt \<bar>of_int (y - prevYear)\<bar> * (40 + 20 * of_nat (length stones)))) \<and>
         (books = [] \<and> stones = [] \<longrightarrow>
            scrollWeight branges mranges prevYear y = Num (sqrt \<bar>of_int (y - prevYear)\<bar>))"
  unfolding scrollWeight_eq segment_weight_def Let_def books_def stones_def mid_def
  by (simp del: of_int_diff of_int_add)

theorem milestone_book_exclusive_witness:
  "scrollWeight [\<lparr>range_start = - 199, range_end = - 99\<rparr>] [\<lparr>range_start = - 160, range_end = 1\<rparr>]
      (- 199) (- 99) = Num 55 \<and>
   scrollWeight [\<lparr>range_start = - 199, range_end = - 99\<rparr>] [\<lparr>range_start = - 160, range_end = 1\<rparr>]
      (- 99) 1 = Num 600 \<and>
   scrollWeight [\<lparr>range_start = - 199, range_end = - 99\<rparr>] [\<lparr>range_start = - 160, range_end = 1\<rparr>]
      1 2026 = Num 45"
proof -
  have r: "round_half_up (of_int (- 199 + (- 99)) / 2) = - 149"
    "round_half_up (of_int (- 99 + 1) / 2) = - 49"
    "round_half_up (of_int (1 + 2026) / 2) = 1014"
    by (simp_all add: round_half_up_def)
  show ?thesis
    using milestone_book_exclusive[where branges = "[\<lparr>range_start = - 199, range_end = - 99\<rparr>]"
        and mranges = "[\<lparr>range_start = - 160, range_end = 1\<rparr>]"
        and prevYear = "- 199" and y = "- 99"]
      milestone_book_exclusive[where branges = "[\<lparr>range_start = - 199, range_end = - 99\<rparr>]"
        and mranges = "[\<lparr>range_start = - 160, range_end = 1\<rparr>]"
        and prevYear = "- 99" and y = 1]
      milestone_book_exclusive[where branges = "[\<lparr>range_start = - 199, range_end = - 99\<rparr>]"
        and mranges = "[\<lparr>range_start = - 160, range_end = 1\<rparr>]"
        and prevYear = 1 and y = 2026]
    unfolding r by (auto simp: durationBonus_def)
qed

text \<open>
  C8, as amended. Within one built mapping, take two segments of the table with the same gap
  in years (in particular two adjacent ones). If a book interval is active at the midpoint of
  the first, and neither a book interval nor a milestone display range is active at the
  midpoint of the second, then the first has the strictly larger span of normalised
  position.
\<close>

theorem density_slowdown:
  fixes cy :: int and books :: "book list" and ms :: "milestone list"
  defines "m \<equiv> buildYearMapping cy books ms"
  assumes "collect_events books ms \<noteq> []"
    and "Suc i < length (dbg_sortedYears m)" and "Suc j < length (dbg_sortedYears m)"
    and "segment_gap m i = segment_gap m j"
    and "0 < ab_count (getActiveBooksInfo (bookRanges books) (segment_mid m i))"
    and "ab_count (getActiveBooksInfo (bookRanges books) (segment_mid m j)) = 0"
    and "am_count (getActiveMilestonesInfo (milestoneRanges ms) (segment_mid m j)) = 0"
  shows "js_lt (segment_span m j) (segment_span m i)"
proof -
  let ?T = "dbg_sortedYears m"
  let ?br = "bookRanges books" and ?mr = "milestoneRanges ms"
  from segment_spans[OF assms(2), of cy] obtain tot where tot: "0 < tot"
    and sp: "\<And>k. Suc k < length ?T \<Longrightarrow> fst (?T ! k) < fst (?T ! Suc k) \<and>
        segment_span m k =
          Num (segment_weight ?br ?mr (fst (?T ! k)) (fst (?T ! Suc k)) / tot * usableRange)"
    unfolding m_def by blast
  let ?wi = "segment_weight ?br ?mr (fst (?T ! i)) (fst (?T ! Suc i))"
  let ?wj = "segment_weight ?br ?mr (fst (?T ! j)) (fst (?T ! Suc j))"
  have gap: "fst (?T ! Suc i) - fst (?T ! i) = fst (?T ! Suc j) - fst (?T ! j)"
    using assms(5) by (simp add: segment_gap_def)
  have "sqrt \<bar>of_int (fst (?T ! Suc i) - fst (?T ! i))\<bar> < ?wi"
  proof (rule segment_weight_dense)
    show "filter (\<lambda>r. range_start r \<le> round_half_up (of_int (fst (?T ! i) + fst (?T ! Suc i)) / 2) \<and>
            round_half_up (of_int (fst (?T ! i) + fst (?T ! Suc i)) / 2) \<le> range_end r) ?br \<noteq> []"
      using assms(6) by (simp add: getActiveBooksInfo_def segment_mid_def Let_def)
    show "fst (?T ! i) \<noteq> fst (?T ! Suc i)" using sp[OF assms(3)] by simp
  qed
  moreover have "?wj = sqrt \<bar>of_int (fst (?T ! Suc j) - fst (?T ! j))\<bar>"
  proof (rule segment_weight_bare)
    show "filter (\<lambda>r. range_start r \<le> round_half_up (of_int (fst (?T ! j) + fst (?T ! Suc j)) / 2) \<and>
            round_half_up (of_int (fst (?T ! j) + fst (?T ! Suc j)) / 2) \<le> range_end r) ?br = []"
      using assms(7) by (simp add: getActiveBooksInfo_def segment_mid_def Let_def)
    show "filter (\<lambda>r. range_start r \<le> round_half_up (of_int (fst (?T ! j) + fst (?T ! Suc j)) / 2) \<and>
            round_half_up (of_int (fst (?T ! j) + fst (?T ! Suc j)) / 2) \<le> range_end r) ?mr = []"
      using assms(8) by (simp add: getActiveMilestonesInfo_def segment_mid_def Let_def)
  qed
  ultimately have "?wj < ?wi" by (simp only: gap)
  then have "?wj / tot < ?wi / tot" using tot by (rule divide_strict_right_mono)
  then have "?wj / tot * usableRange < ?wi / tot * usableRange"
    by (simp add: usableRange_def marginStart_def marginEnd_def)
  then show ?thesis
    using sp[OF assms(3)] sp[OF assms(4)] by simp
qed

theorem density_slowdown_witness:
  "collect_events [sample_book, later_book] [] \<noteq> [] \<and>
   Suc 0 < length (dbg_sortedYears (buildYearMapping 2026 [sample_book, later_book] [])) \<and>
   Suc 1 < length (dbg_sortedYears (buildYearMapping 2026 [sample_book, later_book] [])) \<and>
   segment_gap (buildYearMapping 2026 [sample_book, later_book] []) 0 = 100 \<and>
   segment_gap (buildYearMapping 2026 [sample_book, later_book] []) 1 = 100 \<and>
   ab_count (getActiveBooksInfo (bookRanges [sample_book, later_book])
     (segment_mid (buildYearMapping 2026 [sample_book, later_book] []) 0)) = 1 \<and>
   ab_count (getActiveBooksInfo (bookRanges [sample_book, later_book])
     (segment_mid (buildYearMapping 2026 [sample_book, later_book] []) 1)) = 0 \<and>
   am_count (getActiveMilestonesInfo (milestoneRanges [])
     (segment_mid (buildYearMapping 2026 [sample_book, later_book] []) 1)) = 0 \<and>
   js_lt (segment_span (buildYearMapping 2026 [sample_book, later_book] []) 1)
         (segment_span (buildYearMapping 2026 [sample_book, later_book] []) 0)"
proof -
  let ?m = "buildYearMapping 2026 [sample_book, later_book] []"
  have ev: "map year (collect_events [sample_book, later_book] []) = [- 199, - 99, 1, 50]"
    by (simp add: collect_events_def book_events_def getDisplayDate_def
        sample_book_def later_book_def)
  then have ne: "collect_events [sample_book, later_book] [] \<noteq> []" by auto
  have g: "grid 2026 [sample_book, later_book] [] = [- 199, - 99, 1, 50, 2026]"
    by (simp add: grid_def uniqueYears_def set_of_array_def ev)
  have k: "map fst (dbg_sortedYears ?m) = [- 199, - 99, 1, 50, 2026]"
    by (rule table_keys[OF ne]) (simp_all add: g)
  then have len: "length (dbg_sortedYears ?m) = 5"
    using length_map[of fst "dbg_sortedYears ?m"] by simp
  have n: "fst (dbg_sortedYears ?m ! 0) = - 199" "fst (dbg_sortedYears ?m ! Suc 0) = - 99"
    "fst (dbg_sortedYears ?m ! Suc (Suc 0)) = 1"
    using nth_map[of 0 "dbg_sortedYears ?m" fst] nth_map[of "Suc 0" "dbg_sortedYears ?m" fst]
      nth_map[of "Suc (Suc 0)" "dbg_sortedYears ?m" fst] len
    by (simp_all add: k)
  have br: "bookRanges [sample_book, later_book]
      = [\<lparr>range_start = - 199, range_end = - 99\<rparr>, \<lparr>range_start = 1, range_end = 50\<rparr>]"
    by (simp add: bookRanges_def book_range_def getDisplayDate_def sample_book_def later_book_def)
  have l: "Suc 0 < length (dbg_sortedYears ?m)" "Suc (Suc 0) < length (dbg_sortedYears ?m)"
    using len by simp_all
  have gp: "segment_gap ?m 0 = 100" "segment_gap ?m (Suc 0) = 100"
    by (simp_all add: segment_gap_def n)
  have md: "segment_mid ?m 0 = - 149" "segment_mid ?m (Suc 0) = - 49"
    by (simp_all add: segment_mid_def n round_half_up_def)
  have c: "ab_count (getActiveBooksInfo (bookRanges [sample_book, later_book]) (segment_mid ?m 0)) = 1"
    "ab_count (getActiveBooksInfo (bookRanges [sample_book, later_book]) (segment_mid ?m (Suc 0))) = 0"
    "am_count (getActiveMilestonesInfo (milestoneRanges []) (segment_mid ?m (Suc 0))) = 0"
    by (simp_all add: md br getActiveBooksInfo_def getActiveMilestonesInfo_def milestoneRanges_def)
  have "js_lt (segment_span ?m (Suc 0)) (segment_span ?m 0)"
    by (rule density_slowdown[OF ne l]) (simp_all add: gp c)
  with ne l gp c show ?thesis by simp
qed

text \<open>
  The claim C8 as it was stated compares with a segment that has no active book interval.
  It fails when a milestone display range is active there: the book of the years -199 to -99
  gives the first segment the weight \<open>10 \<times> 5.5\<close>, and the milestone displayed from -99 to 1
  gives the second segment, of the same gap and with no active book, the weight \<open>10 \<times> 60\<close>
  and so the larger span.
\<close>

theorem density_slowdown_counterexample:
  "segment_gap (buildYearMapping 2026 [sample_book] [sample_milestone]) 0 = 100 \<and>
   segment_gap (buildYearMapping 2026 [sample_book] [sample_milestone]) 1 = 100 \<and>
   ab_count (getActiveBooksInfo (bookRanges [sample_book])
     (segment_mid (buildYearMapping 2026 [sample_book] [sample_milestone]) 0)) = 1 \<and>
   ab_count (getActiveBooksInfo (bookRanges [sample_book])
     (segment_mid (buildYearMapping 2026 [sample_book] [sample_milestone]) 1)) = 0 \<and>
   js_lt (segment_span (buildYearMapping 2026 [sample_book] [sample_milestone]) 0)
         (segment_span (buildYearMapping 2026 [sample_book] [sample_milestone]) 1) \<and>
   \<not> js_lt (segment_span (buildYearMapping 2026 [sample_book] [sample_milestone]) 1)
           (segment_span (buildYearMapping 2026 [sample_book] [sample_milestone]) 0)"
proof -
  let ?m = "buildYearMapping 2026 [sample_book] [sample_milestone]"
  have k: "map fst (dbg_sortedYears ?m) = [- 199, - 99, 1, 2026]"
    by (rule table_keys[OF sample_nonempty]) (simp_all add: sample_grid)
  then have len: "length (dbg_sortedYears ?m) = 4"
    using length_map[of fst "dbg_sortedYears ?m"] by simp
  have n: "fst (dbg_sortedYears ?m ! 0) = - 199" "fst (dbg_sortedYears ?m ! Suc 0) = - 99"
    "fst (dbg_sortedYears ?m ! Suc (Suc 0)) = 1"
    using nth_map[of 0 "dbg_sortedYears ?m" fst] nth_map[of "Suc 0" "dbg_sortedYears ?m" fst]
      nth_map[of "Suc (Suc 0)" "dbg_sortedYears ?m" fst] len
    by (simp_all add: k)
  have br: "bookRanges [sample_book] = [\<lparr>range_start = - 199, range_end = - 99\<rparr>]"
    by (simp add: bookRanges_def book_range_def getDisplayDate_def sample_book_def)
  have mr: "milestoneRanges [sample_milestone] = [\<lparr>range_start = - 99, range_end = 1\<rparr>]"
    by (simp add: milestoneRanges_def milestone_range_def sample_milestone_def)
  have gp: "segment_gap ?m 0 = 100" "segment_gap ?m (Suc 0) = 100"
    by (simp_all add: segment_gap_def n)
  have md: "segment_mid ?m 0 = - 149" "segment_mid ?m (Suc 0) = - 49"
    by (simp_all add: segment_mid_def n round_half_up_def)
  have c: "ab_count (getActiveBooksInfo (bookRanges [sample_book]) (segment_mid ?m 0)) = 1"
    "ab_count (getActiveBooksInfo (bookRanges [sample_book]) (segment_mid ?m (Suc 0))) = 0"
    by (simp_all add: md br getActiveBooksInfo_def)
  have w: "segment_weight (bookRanges [sample_book]) (milestoneRanges [sample_milestone]) (- 199) (- 99) = 55"
    "segment_weight (bookRanges [sample_book]) (milestoneRanges [sample_milestone]) (- 99) 1 = 600"
    by (simp_all add: segment_weight_def br mr round_half_up_def durationBonus_def)
  from segment_spans[OF sample_nonempty, of 2026] obtain tot where tot: "0 < tot"
    and sp: "\<And>k. Suc k < length (dbg_sortedYears ?m) \<Longrightarrow>
        segment_span ?m k =
          Num (segment_weight (bookRanges [sample_book]) (milestoneRanges [sample_milestone])
                 (fst (dbg_sortedYears ?m ! k)) (fst (dbg_sortedYears ?m ! Suc k)) / tot * usableRange)"
    by blast
  have s0: "segment_span ?m 0 = Num (55 / tot * usableRange)"
    using sp[of 0] len by (simp add: n w)
  have s1: "segment_span ?m (Suc 0) = Num (600 / tot * usableRange)"
    using sp[of "Suc 0"] len by (simp add: n w)
  have "55 / tot < 600 / tot" using tot by (simp add: divide_strict_right_mono)
  then have "55 / tot * usableRange < 600 / tot * usableRange"
    by (simp add: usableRange_def marginStart_def marginEnd_def)
  then have "js_lt (segment_span ?m 0) (segment_span ?m (Suc 0))"
    "\<not> js_lt (segment_span ?m (Suc 0)) (segment_span ?m 0)"
    unfolding s0 s1 by simp_all
  with gp c show ?thesis by simp
qed

text \<open>
  C9, checked on the code. With a single grid year the accumulated total is zero, and the
  normaliser divides zero by zero: the only entry of the position table is \<open>NaN\<close>, not
  \<open>0\<close>, and \<open>yearToScroll\<close> of that year is \<open>NaN\<close>. Here the only milestone starts and ends
  in the current year 2026 and there is no book.
\<close>

theorem single_year_position_is_nan:
  "collect_events [] [present_milestone] \<noteq> [] \<and>
   grid 2026 [] [present_milestone] = [2026, 2026] \<and>
   dbg_yearPositions (buildYearMapping 2026 [] [present_milestone]) = [(2026, NaN)] \<and>
   yearToScroll (buildYearMapping 2026 [] [present_milestone]) 2026 = Inr NaN"
proof -
  have e: "collect_events [] [present_milestone] \<noteq> []"
    using present_events by auto
  have g: "grid 2026 [] [present_milestone] = [2026, 2026]"
    by (simp add: grid_def uniqueYears_def set_of_array_def present_events)
  have "yearToScroll (buildYearMapping 2026 [] [present_milestone]) 2026 = Inr NaN"
    by (simp add: built(2)[OF e] present_table yearToScroll_nan)
  with e g present_table show ?thesis by simp
qed

text \<open>
  C10. For a mapping built from at least one event, \<open>scrollToYear\<close> returns, for every
  input (every real number, and also \<open>NaN\<close> and the infinities), a whole year between the first
  and the last grid year; it never throws.
\<close>

theorem scrollToYear_within_grid:
  assumes "collect_events books ms \<noteq> []"
  shows "\<exists>y. scrollToYear (buildYearMapping cy books ms) q = Inr (num_of_int y) \<and>
             hd (grid cy books ms) \<le> y \<and> y \<le> last (grid cy books ms)"
  using built(5)[OF assms, of cy]
proof (elim disjE exE conjE)
  fix y0 assume "nan_table (buildYearMapping cy books ms) y0" "set (grid cy books ms) = {y0}"
  then show ?thesis
    by (simp add: built(1)[OF assms] nan_table_def scrollToYear_nan single_grid)
next
  fix nt assume nt: "num_table (buildYearMapping cy books ms) nt"
    and h: "fst (hd nt) = hd (grid cy books ms)" "fst (last nt) = last (grid cy books ms)"
  from nt have i: "incr nt" "nt \<noteq> []"
    and t: "dbg_sortedYears (buildYearMapping cy books ms) = nums nt"
    by (simp_all add: num_table_def)
  from scrollToYear_range[OF i, of q] show ?thesis
    by (simp only: built(1)[OF assms] t h)
qed

theorem scrollToYear_within_grid_witness:
  "collect_events [sample_book] [sample_milestone] \<noteq> [] \<and>
   (\<exists>y. scrollToYear (buildYearMapping 2026 [sample_book] [sample_milestone]) (Num (7 / 10))
          = Inr (num_of_int y) \<and> - 199 \<le> y \<and> y \<le> 2026)"
  using scrollToYear_within_grid[OF sample_nonempty, of 2026 "Num (7 / 10)"] sample_nonempty
  by (simp add: sample_grid)

end
